theory Spec2Isabelle
  imports Complex_Main "HOL-Library.Product_Lexorder" "HOL-Library.Multiset"
begin

section \<open>Detections and their geometry\<close>

text \<open>
  Python numbers (ints from Tesseract, floats from EasyOCR) are modelled as exact
  rationals; strings are \<open>char list\<close>. Exceptions are values of \<open>py_error\<close>.
\<close>

datatype py_error = ZeroDivisionError | IndexError | ValueError | RuntimeError | OSError

text \<open>
  \<^verbatim>\<open>class BoundingBox\<close>: the eight slots. \<open>area\<close> is a stored field, written once by
  the constructor.
\<close>

record BoundingBox =
  box_x1 :: rat
  box_y1 :: rat
  box_x2 :: rat
  box_y2 :: rat
  box_text :: string
  confidence :: rat
  font_size :: rat
  area :: rat

text \<open>
  \<^verbatim>\<open>str.strip()\<close>: drops leading and trailing whitespace. The whitespace characters
  of Python's \<^verbatim>\<open>str.isspace\<close> below code point 256 are 9-13, 28-32, 133 and 160.
\<close>

definition py_isspace :: "char \<Rightarrow> bool" where
  "py_isspace c = (of_char c \<in> {9, 10, 11, 12, 13, 28, 29, 30, 31, 32, 133, 160 :: nat})"

definition py_strip :: "string \<Rightarrow> string" where
  "py_strip s = rev (dropWhile py_isspace (rev (dropWhile py_isspace s)))"

text \<open>\<^verbatim>\<open>BoundingBox.__init__\<close>\<close>

definition BoundingBox_init ::
  "rat \<Rightarrow> rat \<Rightarrow> rat \<Rightarrow> rat \<Rightarrow> string \<Rightarrow> rat \<Rightarrow> rat \<Rightarrow> BoundingBox" where
  "BoundingBox_init x1 y1 x2 y2 txt conf fs =
     \<lparr>box_x1 = x1, box_y1 = y1, box_x2 = x2, box_y2 = y2,
      box_text = py_strip txt, confidence = conf, font_size = fs,
      area = (x2 - x1) * (y2 - y1)\<rparr>"

text \<open>Python's \<^verbatim>\<open>/\<close> raises on a zero divisor.\<close>

definition py_truediv :: "rat \<Rightarrow> rat \<Rightarrow> py_error + rat" where
  "py_truediv a b = (if b = 0 then Inl ZeroDivisionError else Inr (a / b))"

text \<open>\<^verbatim>\<open>calculate_iou_fast\<close>\<close>

definition calculate_iou_fast :: "BoundingBox \<Rightarrow> BoundingBox \<Rightarrow> py_error + rat" where
  "calculate_iou_fast box1 box2 =
     (if box_x2 box1 \<le> box_x1 box2 \<or> box_x2 box2 \<le> box_x1 box1
         \<or> box_y2 box1 \<le> box_y1 box2 \<or> box_y2 box2 \<le> box_y1 box1
      then Inr 0
      else
        let ix1 = max (box_x1 box1) (box_x1 box2);
            iy1 = max (box_y1 box1) (box_y1 box2);
            ix2 = min (box_x2 box1) (box_x2 box2);
            iy2 = min (box_y2 box1) (box_y2 box2);
            intersection = max 0 (ix2 - ix1) * max 0 (iy2 - iy1)
        in if intersection = 0 then Inr 0
           else
             let union = area box1 + area box2 - intersection
             in if union > 0 then py_truediv intersection union else Inr 0)"

text \<open>
  The value read by callers that compare the result with a threshold; by
  \<open>calculate_iou_fast_returns\<close> below the error branch is never taken.
\<close>

definition iou_value :: "BoundingBox \<Rightarrow> BoundingBox \<Rightarrow> rat" where
  "iou_value box1 box2 = (case calculate_iou_fast box1 box2 of Inr v \<Rightarrow> v | Inl e \<Rightarrow> 0)"

subsection \<open>The contract of the specification, in its own words\<close>

text \<open>Two rectangles intersect when they share a point (closed rectangles).\<close>

definition rects_intersect :: "BoundingBox \<Rightarrow> BoundingBox \<Rightarrow> bool" where
  "rects_intersect a b =
     (max (box_x1 a) (box_x1 b) \<le> min (box_x2 a) (box_x2 b)
      \<and> max (box_y1 a) (box_y1 b) \<le> min (box_y2 a) (box_y2 b))"

definition inter_area :: "BoundingBox \<Rightarrow> BoundingBox \<Rightarrow> rat" where
  "inter_area a b =
     max 0 (min (box_x2 a) (box_x2 b) - max (box_x1 a) (box_x1 b))
     * max 0 (min (box_y2 a) (box_y2 b) - max (box_y1 a) (box_y1 b))"

definition union_area :: "BoundingBox \<Rightarrow> BoundingBox \<Rightarrow> rat" where
  "union_area a b = area a + area b - inter_area a b"

definition overlapRatio :: "BoundingBox \<Rightarrow> BoundingBox \<Rightarrow> rat" where
  "overlapRatio a b =
     (if \<not> rects_intersect a b then 0
      else if union_area a b = 0 then 0
      else inter_area a b / union_area a b)"

section \<open>Consensus engine\<close>

text \<open>
  Box objects live in a store; a \<open>ref\<close> is the identity of one object. Lists and
  dictionaries hold references, as Python's do. A dictionary is an association list in
  insertion order.
\<close>

type_synonym ref = nat
type_synonym store = "ref \<Rightarrow> BoundingBox"

text \<open>
  \<^verbatim>\<open>max(iterable, key=f)\<close>: raises on an empty iterable; otherwise the running maximum
  is replaced only by a strictly greater key, so the first maximal item wins.
\<close>

fun py_max_from :: "('a \<Rightarrow> rat) \<Rightarrow> 'a \<Rightarrow> 'a list \<Rightarrow> 'a" where
  "py_max_from key best [] = best"
| "py_max_from key best (x # xs) =
     py_max_from key (if key x > key best then x else best) xs"

definition py_max_by :: "('a \<Rightarrow> rat) \<Rightarrow> 'a list \<Rightarrow> py_error + 'a" where
  "py_max_by key xs =
     (case xs of [] \<Rightarrow> Inl ValueError | x # rest \<Rightarrow> Inr (py_max_from key x rest))"

text \<open>
  The inner loop of \<^verbatim>\<open>fast_ensemble_voting\<close>:
  \<^verbatim>\<open>for j, box2 in enumerate(all_boxes[i+1:], i+1)\<close>, over the state
  \<open>(cluster, used_indices)\<close>.
\<close>

fun cluster_loop ::
  "store \<Rightarrow> rat \<Rightarrow> ref \<Rightarrow> (nat \<times> ref) list \<Rightarrow> ref list \<times> nat set
     \<Rightarrow> py_error + (ref list \<times> nat set)" where
  "cluster_loop st thr box1 [] (cluster, used_indices) = Inr (cluster, used_indices)"
| "cluster_loop st thr box1 ((j, box2) # rest) (cluster, used_indices) =
     (if j \<notin> used_indices then
        (case calculate_iou_fast (st box1) (st box2) of
           Inl e \<Rightarrow> Inl e
         | Inr v \<Rightarrow>
             if v > thr
             then cluster_loop st thr box1 rest (cluster @ [box2], insert j used_indices)
             else cluster_loop st thr box1 rest (cluster, used_indices))
      else cluster_loop st thr box1 rest (cluster, used_indices))"

text \<open>
  The outer loop, \<^verbatim>\<open>for i, box1 in enumerate(all_boxes)\<close>, over the state
  \<open>(final_boxes, used_indices)\<close>.
\<close>

fun voting_loop ::
  "store \<Rightarrow> rat \<Rightarrow> ref list \<Rightarrow> (nat \<times> ref) list \<Rightarrow> ref list \<times> nat set
     \<Rightarrow> py_error + (ref list \<times> nat set)" where
  "voting_loop st thr all_boxes [] (final_boxes, used_indices) =
     Inr (final_boxes, used_indices)"
| "voting_loop st thr all_boxes ((i, box1) # rest) (final_boxes, used_indices) =
     (if i \<in> used_indices then voting_loop st thr all_boxes rest (final_boxes, used_indices)
      else
        case cluster_loop st thr box1 (enumerate (i + 1) (drop (i + 1) all_boxes))
               ([box1], insert i used_indices) of
          Inl e \<Rightarrow> Inl e
        | Inr (cluster, used') \<Rightarrow>
            (case py_max_by (\<lambda>b. confidence (st b)) cluster of
               Inl e \<Rightarrow> Inl e
             | Inr m \<Rightarrow> voting_loop st thr all_boxes rest (final_boxes @ [m], used')))"

text \<open>\<^verbatim>\<open>fast_ensemble_voting\<close>; its default threshold is \<^verbatim>\<open>0.25\<close>.\<close>

definition iou_threshold_default :: rat where
  "iou_threshold_default = 25 / 100"

definition fast_ensemble_voting ::
  "store \<Rightarrow> (string \<times> ref list) list \<Rightarrow> rat \<Rightarrow> py_error + ref list" where
  "fast_ensemble_voting st ocr_results iou_threshold =
     (let all_boxes = concat (map snd ocr_results)
      in if all_boxes = [] then Inr []
         else case voting_loop st iou_threshold all_boxes (enumerate 0 all_boxes) ([], {}) of
                Inl e \<Rightarrow> Inl e
              | Inr (final_boxes, used_indices) \<Rightarrow> Inr final_boxes)"

text \<open>
  The same outer loop with one change: it records the \<^verbatim>\<open>cluster\<close> list built at each
  seed instead of its maximum. It calls the same inner loop on the same state, so these
  are the clusters \<^verbatim>\<open>fast_ensemble_voting\<close> builds.
\<close>

fun voting_loop_clusters ::
  "store \<Rightarrow> rat \<Rightarrow> ref list \<Rightarrow> (nat \<times> ref) list \<Rightarrow> ref list list \<times> nat set
     \<Rightarrow> py_error + (ref list list \<times> nat set)" where
  "voting_loop_clusters st thr all_boxes [] (clusters, used_indices) =
     Inr (clusters, used_indices)"
| "voting_loop_clusters st thr all_boxes ((i, box1) # rest) (clusters, used_indices) =
     (if i \<in> used_indices
      then voting_loop_clusters st thr all_boxes rest (clusters, used_indices)
      else
        case cluster_loop st thr box1 (enumerate (i + 1) (drop (i + 1) all_boxes))
               ([box1], insert i used_indices) of
          Inl e \<Rightarrow> Inl e
        | Inr (cluster, used') \<Rightarrow>
            voting_loop_clusters st thr all_boxes rest (clusters @ [cluster], used'))"

definition voting_clusters :: "store \<Rightarrow> (string \<times> ref list) list \<Rightarrow> rat \<Rightarrow> ref list list" where
  "voting_clusters st ocr_results iou_threshold =
     (let all_boxes = concat (map snd ocr_results)
      in case voting_loop_clusters st iou_threshold all_boxes (enumerate 0 all_boxes) ([], {}) of
           Inl e \<Rightarrow> []
         | Inr (clusters, used_indices) \<Rightarrow> clusters)"

subsection \<open>The consensus algorithm in the words of the specification\<close>

text \<open>
  A cluster is seeded at the first detection not yet used and takes every later unused
  detection whose overlap ratio with the seed exceeds the threshold; the scan continues
  on what is left.
\<close>

definition joins :: "store \<Rightarrow> rat \<Rightarrow> ref \<Rightarrow> ref \<Rightarrow> bool" where
  "joins st thr seed b = (thr < iou_value (st seed) (st b))"

fun consensus_clusters :: "store \<Rightarrow> rat \<Rightarrow> ref list \<Rightarrow> ref list list" where
  "consensus_clusters st thr [] = []"
| "consensus_clusters st thr (seed # later) =
     (seed # filter (joins st thr seed) later)
     # consensus_clusters st thr (filter (\<lambda>b. \<not> joins st thr seed b) later)"

text \<open>
  The representative of a cluster: the first member, in scan order, whose confidence is
  at least that of every member.
\<close>

definition is_max_conf :: "store \<Rightarrow> ref list \<Rightarrow> ref \<Rightarrow> bool" where
  "is_max_conf st cluster r = (\<forall>m \<in> set cluster. confidence (st m) \<le> confidence (st r))"

definition representative :: "store \<Rightarrow> ref list \<Rightarrow> ref" where
  "representative st cluster =
     (case find (is_max_conf st cluster) cluster of Some r \<Rightarrow> r | None \<Rightarrow> hd cluster)"

definition consensus_spec :: "store \<Rightarrow> rat \<Rightarrow> ref list \<Rightarrow> ref list" where
  "consensus_spec st thr detections = map (representative st) (consensus_clusters st thr detections)"

text \<open>
  \<open>first_max_at key L m\<close>: \<open>m\<close> sits at some position of \<open>L\<close>, no item of \<open>L\<close> has a
  greater key, and every item before that position has a strictly smaller key.
\<close>

definition first_max_at :: "('a \<Rightarrow> rat) \<Rightarrow> 'a list \<Rightarrow> 'a \<Rightarrow> bool" where
  "first_max_at key L m =
     (\<exists>i < length L. L ! i = m \<and> (\<forall>y \<in> set L. key y \<le> key m)
        \<and> (\<forall>j < i. key (L ! j) < key m))"

text \<open>
  Three detections for the examples: D1 and D2 overlap with ratio one half, D3 is
  disjoint from both.
\<close>

definition demo_store :: store where
  "demo_store r =
     (if r = 0 then BoundingBox_init 0 0 3 1 ''D1'' (9 / 10) 8
      else if r = 1 then BoundingBox_init 1 0 4 1 ''D2'' (95 / 100) 8
      else BoundingBox_init 20 20 30 30 ''D3'' (3 / 10) 8)"

section \<open>Outline builder\<close>

text \<open>The result dictionaries: one outline entry, and the whole result.\<close>

record outline_entry =
  level :: string
  entry_text :: string
  page :: int

record outline_result =
  title :: string
  outline :: "outline_entry list"

text \<open>\<^verbatim>\<open>xs[i]\<close> for a non-negative index.\<close>

definition py_getitem :: "'a list \<Rightarrow> nat \<Rightarrow> py_error + 'a" where
  "py_getitem xs i = (if i < length xs then Inr (xs ! i) else Inl IndexError)"

text \<open>\<^verbatim>\<open>text.endswith('.')\<close> and \<^verbatim>\<open>text.count(' ')\<close>\<close>

definition ends_with_period :: "string \<Rightarrow> bool" where
  "ends_with_period txt = (txt \<noteq> [] \<and> last txt = CHR ''.'')"

definition count_spaces :: "string \<Rightarrow> nat" where
  "count_spaces txt = length (filter (\<lambda>c. c = CHR '' '') txt)"

text \<open>
  \<^verbatim>\<open>first_page_boxes\<close>, \<^verbatim>\<open>title_box\<close> (\<open>None\<close> when page 0 has no box) and
  \<^verbatim>\<open>document_title\<close>.
\<close>

definition first_page_boxes :: "(int \<times> ref) list \<Rightarrow> ref list" where
  "first_page_boxes all_boxes_with_page =
     map snd (filter (\<lambda>(page_idx, box). page_idx = 0) all_boxes_with_page)"

definition title_box_of :: "store \<Rightarrow> (int \<times> ref) list \<Rightarrow> py_error + ref option" where
  "title_box_of st all_boxes_with_page =
     (let fp = first_page_boxes all_boxes_with_page
      in if fp \<noteq> [] then
           (case py_max_by (\<lambda>b. font_size (st b)) fp of
              Inl e \<Rightarrow> Inl e | Inr b \<Rightarrow> Inr (Some b))
         else Inr None)"

definition document_title_of :: "store \<Rightarrow> ref option \<Rightarrow> string" where
  "document_title_of st title_box =
     (case title_box of Some b \<Rightarrow> box_text (st b) | None \<Rightarrow> [])"

text \<open>\<^verbatim>\<open>all_font_sizes\<close> and \<^verbatim>\<open>median_size = sorted_sizes[len(sorted_sizes) // 2]\<close>\<close>

definition all_font_sizes :: "store \<Rightarrow> (int \<times> ref) list \<Rightarrow> rat list" where
  "all_font_sizes st all_boxes_with_page =
     map (\<lambda>(page_idx, box). font_size (st box))
       (filter (\<lambda>(page_idx, box). length (box_text (st box)) > 2) all_boxes_with_page)"

definition median_size :: "rat list \<Rightarrow> py_error + rat" where
  "median_size sizes =
     (let sorted_sizes = sort sizes
      in py_getitem sorted_sizes (length sorted_sizes div 2))"

text \<open>
  \<^verbatim>\<open>"H1" if box.font_size >= h1_threshold else "H2" if box.font_size >= h2_threshold else None\<close>
\<close>

definition level_of :: "rat \<Rightarrow> rat \<Rightarrow> rat \<Rightarrow> string option" where
  "level_of h1_threshold h2_threshold fs =
     (if fs \<ge> h1_threshold then Some ''H1''
      else if fs \<ge> h2_threshold then Some ''H2'' else None)"

text \<open>
  The loop \<^verbatim>\<open>for page_idx, box in sorted_boxes\<close>. \<^verbatim>\<open>box is title_box\<close> compares
  object identities, here references.
\<close>

fun outline_loop ::
  "store \<Rightarrow> ref option \<Rightarrow> rat \<Rightarrow> rat \<Rightarrow> (int \<times> ref) list \<Rightarrow> outline_entry list
     \<Rightarrow> outline_entry list" where
  "outline_loop st title_box h1 h2 [] acc = acc"
| "outline_loop st title_box h1 h2 ((page_idx, box) # rest) acc =
     (if Some box = title_box then outline_loop st title_box h1 h2 rest acc
      else
        let txt = box_text (st box)
        in if length txt < 3 \<or> length txt > 120 \<or> ends_with_period txt \<or> count_spaces txt > 10
           then outline_loop st title_box h1 h2 rest acc
           else
             (case level_of h1 h2 (font_size (st box)) of
                Some lv \<Rightarrow>
                  outline_loop st title_box h1 h2 rest
                    (acc @ [\<lparr>level = lv, entry_text = txt, page = page_idx\<rparr>])
              | None \<Rightarrow> outline_loop st title_box h1 h2 rest acc))"

text \<open>
  \<^verbatim>\<open>sorted(all_boxes_with_page, key=lambda item: (item[0], item[1].y1))\<close>: a stable sort
  on the lexicographically ordered pair.
\<close>

definition sorted_boxes_of :: "store \<Rightarrow> (int \<times> ref) list \<Rightarrow> (int \<times> ref) list" where
  "sorted_boxes_of st all_boxes_with_page =
     sort_key (\<lambda>(page_idx, box). (page_idx, box_y1 (st box))) all_boxes_with_page"

text \<open>\<^verbatim>\<open>create_document_outline\<close>\<close>

definition create_document_outline ::
  "store \<Rightarrow> (int \<times> ref) list \<Rightarrow> py_error + outline_result" where
  "create_document_outline st all_boxes_with_page =
     (if all_boxes_with_page = [] then Inr \<lparr>title = [], outline = []\<rparr>
      else
        case title_box_of st all_boxes_with_page of
          Inl e \<Rightarrow> Inl e
        | Inr title_box \<Rightarrow>
            let document_title = document_title_of st title_box;
                sizes = all_font_sizes st all_boxes_with_page
            in if sizes = [] then Inr \<lparr>title = document_title, outline = []\<rparr>
               else
                 case median_size sizes of
                   Inl e \<Rightarrow> Inl e
                 | Inr median \<Rightarrow>
                     let h1_threshold = median * (16 / 10);
                         h2_threshold = median * (13 / 10);
                         sorted_boxes = sorted_boxes_of st all_boxes_with_page
                     in Inr \<lparr>title = document_title,
                             outline = outline_loop st title_box h1_threshold h2_threshold
                                         sorted_boxes []\<rparr>)"

subsection \<open>The outline rules in the words of the specification\<close>

text \<open>
  A heading candidate has 3 to 120 characters, does not end with a period and has at
  most 10 spaces.
\<close>

definition heading_candidate :: "string \<Rightarrow> bool" where
  "heading_candidate txt =
     (3 \<le> length txt \<and> length txt \<le> 120 \<and> \<not> ends_with_period txt \<and> count_spaces txt \<le> 10)"

text \<open>The entry written for a detection, given the H1 threshold.\<close>

definition heading_entry :: "store \<Rightarrow> rat \<Rightarrow> int \<times> ref \<Rightarrow> outline_entry" where
  "heading_entry st h1 item =
     \<lparr>level = (if font_size (st (snd item)) \<ge> h1 then ''H1'' else ''H2''),
      entry_text = box_text (st (snd item)), page = fst item\<rparr>"

text \<open>
  An example document: object 0 on page 0 is the title; object 1 on page 1 has the same
  content as the title; then a chapter heading, a section heading, a sentence, and six
  body lines of font size 10, so that the median font size is 10.
\<close>

definition outline_demo_store :: store where
  "outline_demo_store r =
     (if r \<le> 1 then
        \<lparr>box_x1 = 0, box_y1 = 0, box_x2 = 200, box_y2 = 30, box_text = ''Report Title'',
         confidence = 9 / 10, font_size = 24, area = 6000\<rparr>
      else if r = 2 then
        \<lparr>box_x1 = 0, box_y1 = 40, box_x2 = 100, box_y2 = 60, box_text = ''Chapter One'',
         confidence = 9 / 10, font_size = 18, area = 2000\<rparr>
      else if r = 3 then
        \<lparr>box_x1 = 0, box_y1 = 70, box_x2 = 100, box_y2 = 85, box_text = ''Section 1.1'',
         confidence = 9 / 10, font_size = 14, area = 1500\<rparr>
      else if r = 4 then
        \<lparr>box_x1 = 0, box_y1 = 90, box_x2 = 300, box_y2 = 115,
         box_text = ''this is a long descriptive sentence.'',
         confidence = 9 / 10, font_size = 20, area = 7500\<rparr>
      else
        \<lparr>box_x1 = 0, box_y1 = 120, box_x2 = 100, box_y2 = 130, box_text = ''body text'',
         confidence = 9 / 10, font_size = 10, area = 1000\<rparr>)"

definition outline_demo_input :: "(int \<times> ref) list" where
  "outline_demo_input =
     [(0, 0), (1, 1), (1, 2), (1, 3), (1, 4), (2, 5), (2, 6), (2, 7), (2, 8), (2, 9), (2, 10)]"

section \<open>Recognizer adapters\<close>

text \<open>
  The engines are external. An adapter is modelled as a function of what its engine
  returned for the page image: \<open>Inl\<close> when decoding the image or the engine raised,
  \<open>Inr\<close> with the engine's data otherwise.

  \<^verbatim>\<open>pytesseract.image_to_data(..., output_type=DICT)\<close> returns a dictionary of parallel
  lists; the adapter reads the keys \<^verbatim>\<open>text\<close>, \<^verbatim>\<open>conf\<close>, \<^verbatim>\<open>left\<close>, \<^verbatim>\<open>top\<close>, \<^verbatim>\<open>width\<close>
  and \<^verbatim>\<open>height\<close>.
\<close>

record tess_data =
  td_text :: "string list"
  td_conf :: "rat list"
  td_left :: "int list"
  td_top :: "int list"
  td_width :: "int list"
  td_height :: "int list"

text \<open>\<^verbatim>\<open>int(x)\<close> on a number truncates towards zero.\<close>

definition py_int :: "rat \<Rightarrow> int" where
  "py_int x = (if 0 \<le> x then \<lfloor>x\<rfloor> else \<lceil>x\<rceil>)"

text \<open>
  The body of \<^verbatim>\<open>for i in range(len(data['text']))\<close>. The geometry lists are read only
  for an admitted row; any failing list access raises \<open>IndexError\<close>.
\<close>

fun tesseract_rows :: "tess_data \<Rightarrow> nat list \<Rightarrow> BoundingBox list \<Rightarrow> py_error + BoundingBox list" where
  "tesseract_rows data [] boxes = Inr boxes"
| "tesseract_rows data (i # rest) boxes =
     (case py_getitem (td_text data) i of Inl e \<Rightarrow> Inl e | Inr raw \<Rightarrow>
      case py_getitem (td_conf data) i of Inl e \<Rightarrow> Inl e | Inr c \<Rightarrow>
        let txt = py_strip raw; conf = py_int c
        in if length txt > 1 \<and> conf > 30 then
             (case py_getitem (td_left data) i of Inl e \<Rightarrow> Inl e | Inr x \<Rightarrow>
              case py_getitem (td_top data) i of Inl e \<Rightarrow> Inl e | Inr y \<Rightarrow>
              case py_getitem (td_width data) i of Inl e \<Rightarrow> Inl e | Inr w \<Rightarrow>
              case py_getitem (td_height data) i of Inl e \<Rightarrow> Inl e | Inr h \<Rightarrow>
                tesseract_rows data rest
                  (boxes @ [BoundingBox_init (of_int x) (of_int y) (of_int (x + w))
                              (of_int (y + h)) txt (of_int conf / 100)
                              (max 8 (of_int h * (8 / 10)))]))
           else tesseract_rows data rest boxes)"

text \<open>\<^verbatim>\<open>run_tesseract\<close>: any exception gives the empty list.\<close>

definition run_tesseract :: "py_error + tess_data \<Rightarrow> BoundingBox list" where
  "run_tesseract engine_output =
     (case engine_output of
        Inl e \<Rightarrow> []
      | Inr data \<Rightarrow>
          (case tesseract_rows data [0..<length (td_text data)] [] of
             Inl e \<Rightarrow> [] | Inr boxes \<Rightarrow> boxes))"

text \<open>\<^verbatim>\<open>min(xs)\<close> and \<^verbatim>\<open>max(xs)\<close> on numbers raise \<open>ValueError\<close> on an empty list.\<close>

definition py_min :: "rat list \<Rightarrow> py_error + rat" where
  "py_min xs = (case xs of [] \<Rightarrow> Inl ValueError | x # rest \<Rightarrow> Inr (fold min rest x))"

definition py_max :: "rat list \<Rightarrow> py_error + rat" where
  "py_max xs = (case xs of [] \<Rightarrow> Inl ValueError | x # rest \<Rightarrow> Inr (fold max rest x))"

text \<open>
  The body of \<^verbatim>\<open>for coords, text, conf in results\<close>; \<open>coords\<close> is the list of corner
  points of the detected region.
\<close>

fun easyocr_rows ::
  "((rat \<times> rat) list \<times> string \<times> rat) list \<Rightarrow> BoundingBox list \<Rightarrow> py_error + BoundingBox list" where
  "easyocr_rows [] boxes = Inr boxes"
| "easyocr_rows ((coords, txt, conf) # rest) boxes =
     (if conf > 4 / 10 \<and> length (py_strip txt) > 1 then
        let x_coords = map fst coords; y_coords = map snd coords
        in (case py_min x_coords of Inl e \<Rightarrow> Inl e | Inr x1 \<Rightarrow>
            case py_min y_coords of Inl e \<Rightarrow> Inl e | Inr y1 \<Rightarrow>
            case py_max x_coords of Inl e \<Rightarrow> Inl e | Inr x2 \<Rightarrow>
            case py_max y_coords of Inl e \<Rightarrow> Inl e | Inr y2 \<Rightarrow>
              easyocr_rows rest
                (boxes @ [BoundingBox_init x1 y1 x2 y2 txt conf
                            (max 8 ((y2 - y1) * (8 / 10)))]))
      else easyocr_rows rest boxes)"

text \<open>
  \<^verbatim>\<open>run_easyocr\<close>: \<open>reader_ready\<close> says whether the worker's \<^verbatim>\<open>EASYOCR_READER\<close> has been
  initialised.
\<close>

definition run_easyocr ::
  "bool \<Rightarrow> py_error + ((rat \<times> rat) list \<times> string \<times> rat) list \<Rightarrow> BoundingBox list" where
  "run_easyocr reader_ready engine_output =
     (if \<not> reader_ready then []
      else case engine_output of
             Inl e \<Rightarrow> []
           | Inr results \<Rightarrow>
               (case easyocr_rows results [] of Inl e \<Rightarrow> [] | Inr boxes \<Rightarrow> boxes))"

text \<open>An engine region of zero width, as Tesseract may report it.\<close>

definition degenerate_tess_data :: tess_data where
  "degenerate_tess_data =
     \<lparr>td_text = [''ab''], td_conf = [90], td_left = [5], td_top = [5],
      td_width = [0], td_height = [10]\<rparr>"

text \<open>
  Where an adapter's box comes from: a Tesseract box spans the width and height of one
  engine row; an EasyOCR box spans the smallest and largest coordinates of one polygon.
\<close>

definition tess_origin :: "tess_data \<Rightarrow> BoundingBox \<Rightarrow> bool" where
  "tess_origin data b =
     (\<exists>i. i < length (td_width data) \<and> i < length (td_height data)
        \<and> box_x2 b - box_x1 b = of_int (td_width data ! i)
        \<and> box_y2 b - box_y1 b = of_int (td_height data ! i)
        \<and> area b = (box_x2 b - box_x1 b) * (box_y2 b - box_y1 b)
        \<and> 8 \<le> font_size b)"

definition easy_origin :: "((rat \<times> rat) list \<times> string \<times> rat) list \<Rightarrow> BoundingBox \<Rightarrow> bool" where
  "easy_origin results b =
     (\<exists>coords txt conf. (coords, txt, conf) \<in> set results \<and> coords \<noteq> []
        \<and> box_x1 b = Min (fst ` set coords) \<and> box_x2 b = Max (fst ` set coords)
        \<and> box_y1 b = Min (snd ` set coords) \<and> box_y2 b = Max (snd ` set coords)
        \<and> area b = (box_x2 b - box_x1 b) * (box_y2 b - box_y1 b)
        \<and> 8 \<le> font_size b)"

section \<open>Dispatcher and document processing\<close>

text \<open>
  \<^verbatim>\<open>d[k] = v\<close> on an insertion-ordered dictionary: an existing key keeps its position, a
  new key goes to the end.
\<close>

fun py_setitem :: "('k \<times> 'v) list \<Rightarrow> 'k \<Rightarrow> 'v \<Rightarrow> ('k \<times> 'v) list" where
  "py_setitem [] k v = [(k, v)]"
| "py_setitem ((k', v') # d) k v =
     (if k' = k then (k', v) # d else (k', v') # py_setitem d k v)"

text \<open>
  One job is submitted per page and engine, and the \<^verbatim>\<open>futures\<close> dictionary tags each
  future with its \<^verbatim>\<open>(page_idx, ocr_name)\<close>. A future is identified here with its tag;
  \<open>submitted_keys\<close> lists the tags in submission order.
\<close>

type_synonym job_key = "nat \<times> string"

definition submitted_keys :: "'img list \<Rightarrow> job_key list" where
  "submitted_keys page_bytes_list =
     concat (map (\<lambda>(page_idx, page_bytes). [(page_idx, ''tesseract''), (page_idx, ''easyocr'')])
               (enumerate 0 page_bytes_list))"

text \<open>
  \<^verbatim>\<open>results_by_page[page_idx][ocr_name] = boxes\<close> on a \<^verbatim>\<open>defaultdict(dict)\<close>: a missing
  page gets an empty inner dictionary first.
\<close>

type_synonym results_by_page = "(nat \<times> (string \<times> ref list) list) list"

definition inner_dict :: "results_by_page \<Rightarrow> nat \<Rightarrow> (string \<times> ref list) list" where
  "inner_dict results page_idx = (case map_of results page_idx of None \<Rightarrow> [] | Some d \<Rightarrow> d)"

definition store_result :: "results_by_page \<Rightarrow> nat \<Rightarrow> string \<Rightarrow> ref list \<Rightarrow> results_by_page" where
  "store_result results page_idx ocr_name boxes =
     py_setitem results page_idx (py_setitem (inner_dict results page_idx) ocr_name boxes)"

text \<open>
  \<^verbatim>\<open>for future in as_completed(futures)\<close>: the futures arrive in completion order;
  \<^verbatim>\<open>future.result()\<close> returns the job's list (already in the store) or raises.
\<close>

fun collect_results ::
  "(job_key \<Rightarrow> py_error + ref list) \<Rightarrow> job_key list \<Rightarrow> results_by_page
     \<Rightarrow> py_error + results_by_page" where
  "collect_results job_result [] results = Inr results"
| "collect_results job_result ((page_idx, ocr_name) # rest) results =
     (case job_result (page_idx, ocr_name) of
        Inl e \<Rightarrow> Inl e
      | Inr boxes \<Rightarrow>
          collect_results job_result rest (store_result results page_idx ocr_name boxes))"

text \<open>
  What a PageResult mapping is as a mapping: Python compares dictionaries by their keys
  and values, not by insertion order.
\<close>

definition page_result_view :: "results_by_page \<Rightarrow> nat \<Rightarrow> (string \<rightharpoonup> ref list) option" where
  "page_result_view results page_idx = map_option map_of (map_of results page_idx)"

text \<open>\<^verbatim>\<open>for page_idx in sorted(results_by_page.keys())\<close>\<close>

fun consensus_pages ::
  "store \<Rightarrow> results_by_page \<Rightarrow> nat list \<Rightarrow> (int \<times> ref) list \<Rightarrow> py_error + (int \<times> ref) list" where
  "consensus_pages st results [] acc = Inr acc"
| "consensus_pages st results (page_idx # rest) acc =
     (case fast_ensemble_voting st (inner_dict results page_idx) iou_threshold_default of
        Inl e \<Rightarrow> Inl e
      | Inr consensus_boxes \<Rightarrow>
          consensus_pages st results rest
            (acc @ map (\<lambda>box. (int page_idx, box)) consensus_boxes))"

text \<open>
  \<^verbatim>\<open>extract_pdf_pages_fast\<close>: \<open>opened\<close> is what the renderer did, the pages or an
  exception; the function logs the exception and returns no pages.
\<close>

datatype log_level = INFO | ERROR

definition extract_pdf_pages_fast :: "py_error + 'img list \<Rightarrow> 'img list \<times> log_level list" where
  "extract_pdf_pages_fast opened =
     (case opened of Inr page_bytes \<Rightarrow> (page_bytes, []) | Inl e \<Rightarrow> ([], [ERROR]))"

text \<open>
  How a call of \<^verbatim>\<open>process_single_pdf_fast\<close> ends, what it wrote to the output file and
  the levels of the lines it logged.
\<close>

datatype exit_outcome = Returned | SystemExit int

record run_report =
  outcome :: exit_outcome
  written :: "outline_result option"
  logged :: "log_level list"

text \<open>
  \<^verbatim>\<open>process_single_pdf_fast\<close>. \<open>completion_order\<close> turns the submission order into the
  order in which \<^verbatim>\<open>as_completed\<close> yields the futures; \<open>write_ok\<close> says whether opening
  and writing the output file succeeds. Every exception inside the \<^verbatim>\<open>try\<close> block ends in
  \<^verbatim>\<open>sys.exit(1)\<close>.
\<close>

definition process_single_pdf_fast ::
  "store \<Rightarrow> py_error + 'img list \<Rightarrow> (job_key \<Rightarrow> py_error + ref list)
     \<Rightarrow> (job_key list \<Rightarrow> job_key list) \<Rightarrow> bool \<Rightarrow> run_report" where
  "process_single_pdf_fast st opened job_result completion_order write_ok =
     (case extract_pdf_pages_fast opened of
        (page_bytes_list, extract_log) \<Rightarrow>
          if page_bytes_list = []
          then \<lparr>outcome = Returned, written = None, logged = [INFO] @ extract_log @ [ERROR]\<rparr>
          else
            case (case collect_results job_result
                         (completion_order (submitted_keys page_bytes_list)) [] of
                    Inl e \<Rightarrow> Inl e
                  | Inr results \<Rightarrow>
                      (case consensus_pages st results (sort (map fst results)) [] of
                         Inl e \<Rightarrow> Inl e
                       | Inr all_consensus_boxes_with_page_info \<Rightarrow>
                           (case create_document_outline st all_consensus_boxes_with_page_info of
                              Inl e \<Rightarrow> Inl e
                            | Inr output_data \<Rightarrow>
                                if write_ok then Inr output_data else Inl OSError))) of
              Inl e \<Rightarrow>
                \<lparr>outcome = SystemExit 1, written = None,
                 logged = [INFO] @ extract_log @ [INFO, ERROR]\<rparr>
            | Inr output_data \<Rightarrow>
                \<lparr>outcome = Returned, written = Some output_data,
                 logged = [INFO] @ extract_log @ [INFO, INFO, INFO]\<rparr>)"

text \<open>
  \<^verbatim>\<open>main\<close>: the documents are processed in turn; a \<^verbatim>\<open>SystemExit\<close> ends the process with
  its status, otherwise the process ends with status 0.
\<close>

record 'img document =
  doc_opened :: "py_error + 'img list"
  doc_job_result :: "job_key \<Rightarrow> py_error + ref list"
  doc_completion_order :: "job_key list \<Rightarrow> job_key list"
  doc_write_ok :: bool

fun main_loop :: "store \<Rightarrow> 'img document list \<Rightarrow> run_report list \<times> int" where
  "main_loop st [] = ([], 0)"
| "main_loop st (d # ds) =
     (let r = process_single_pdf_fast st (doc_opened d) (doc_job_result d)
                (doc_completion_order d) (doc_write_ok d)
      in case outcome r of
           SystemExit status \<Rightarrow> ([r], status)
         | Returned \<Rightarrow> (case main_loop st ds of (rs, status) \<Rightarrow> (r # rs, status)))"

definition main_exit_status :: "store \<Rightarrow> 'img document list \<Rightarrow> int" where
  "main_exit_status st pdf_files = snd (main_loop st pdf_files)"

text \<open>
  The mapping obtained from a mapping \<open>v\<close> by routing the results of a set of tagged jobs
  into it.
\<close>

definition routed :: "(job_key \<Rightarrow> py_error + ref list) \<Rightarrow> job_key set
    \<Rightarrow> (nat \<Rightarrow> (string \<rightharpoonup> ref list) option) \<Rightarrow> nat \<Rightarrow> (string \<rightharpoonup> ref list) option" where
  "routed job_result ks v p =
     (if p \<in> fst ` ks
      then Some (\<lambda>n. if (p, n) \<in> ks
                      then (case job_result (p, n) of Inr boxes \<Rightarrow> Some boxes | Inl e \<Rightarrow> None)
                      else (case v p of None \<Rightarrow> None | Some m \<Rightarrow> m n))
      else v p)"

text \<open>Job results for the examples: one box per job.\<close>

definition demo_job_result :: "job_key \<Rightarrow> py_error + ref list" where
  "demo_job_result k = Inr (if snd k = ''tesseract'' then [2 * fst k] else [2 * fst k + 1])"

section \<open>Properties of the overlap ratio\<close>

lemma calculate_iou_fast_returns:
  "calculate_iou_fast a b = Inr (iou_value a b)"
  by (simp add: iou_value_def calculate_iou_fast_def py_truediv_def Let_def)

lemma inter_area_nonneg: "0 \<le> inter_area a b"
  by (simp add: inter_area_def)

lemma inter_area_commute: "inter_area a b = inter_area b a"
  by (simp add: inter_area_def max.commute min.commute)

lemma iou_value_inter:
  "iou_value a b =
     (if inter_area a b = 0 then 0
      else if area a + area b - inter_area a b > 0
           then inter_area a b / (area a + area b - inter_area a b) else 0)"
  unfolding iou_value_def calculate_iou_fast_def py_truediv_def inter_area_def Let_def
  by (auto simp: max_def min_def split: if_splits)

lemma inter_area_le_left:
  assumes "area a = (box_x2 a - box_x1 a) * (box_y2 a - box_y1 a)"
    and "inter_area a b \<noteq> 0"
  shows "inter_area a b \<le> area a" and "0 < area a"
proof -
  let ?w = "min (box_x2 a) (box_x2 b) - max (box_x1 a) (box_x1 b)"
  let ?h = "min (box_y2 a) (box_y2 b) - max (box_y1 a) (box_y1 b)"
  from assms(2) have w: "0 < ?w" and h: "0 < ?h"
    by (auto simp: inter_area_def max_def split: if_splits)
  have wa: "?w \<le> box_x2 a - box_x1 a" and ha: "?h \<le> box_y2 a - box_y1 a"
    by (auto simp: max_def min_def)
  have "inter_area a b = ?w * ?h"
    using w h by (simp add: inter_area_def max_def)
  also have "\<dots> \<le> (box_x2 a - box_x1 a) * (box_y2 a - box_y1 a)"
    using w h wa ha by (intro mult_mono) auto
  finally show "inter_area a b \<le> area a" using assms(1) by simp
  have "0 < ?w * ?h" using w h by simp
  then show "0 < area a"
    using \<open>?w * ?h \<le> (box_x2 a - box_x1 a) * (box_y2 a - box_y1 a)\<close> assms(1) by simp
qed

lemma not_intersect_inter_area:
  "\<not> rects_intersect a b \<Longrightarrow> inter_area a b = 0"
  by (auto simp: rects_intersect_def inter_area_def max_def min_def split: if_splits)

lemma BoundingBox_init_area:
  "area (BoundingBox_init x1 y1 x2 y2 t c f)
   = (box_x2 (BoundingBox_init x1 y1 x2 y2 t c f) - box_x1 (BoundingBox_init x1 y1 x2 y2 t c f))
     * (box_y2 (BoundingBox_init x1 y1 x2 y2 t c f) - box_y1 (BoundingBox_init x1 y1 x2 y2 t c f))"
  by (simp add: BoundingBox_init_def)

lemma iou_value_cached:
  assumes a: "area a = (box_x2 a - box_x1 a) * (box_y2 a - box_y1 a)"
    and b: "area b = (box_x2 b - box_x1 b) * (box_y2 b - box_y1 b)"
  shows "iou_value a b = overlapRatio a b"
    and "0 \<le> iou_value a b" and "iou_value a b \<le> 1"
proof -
  show eq: "iou_value a b = overlapRatio a b"
  proof (cases "inter_area a b = 0")
    case True
    then show ?thesis by (simp add: iou_value_inter overlapRatio_def)
  next
    case False
    have "inter_area b a \<noteq> 0" using False by (simp add: inter_area_commute)
    from inter_area_le_left[OF b this] have "inter_area a b \<le> area b"
      by (simp add: inter_area_commute)
    moreover from inter_area_le_left[OF a False] have "0 < area a" by simp
    ultimately have "0 < area a + area b - inter_area a b" by simp
    moreover have "rects_intersect a b" using False not_intersect_inter_area by blast
    ultimately show ?thesis using False
      by (simp add: iou_value_inter overlapRatio_def union_area_def)
  qed
  show "0 \<le> iou_value a b"
    by (simp add: iou_value_inter inter_area_nonneg)
  show "iou_value a b \<le> 1"
  proof (cases "inter_area a b = 0")
    case True
    then show ?thesis by (simp add: iou_value_inter)
  next
    case False
    have "inter_area b a \<noteq> 0" using False by (simp add: inter_area_commute)
    from inter_area_le_left[OF b this] have "inter_area a b \<le> area b"
      by (simp add: inter_area_commute)
    moreover from inter_area_le_left[OF a False] have "inter_area a b \<le> area a" by simp
    ultimately show ?thesis by (simp add: iou_value_inter)
  qed
qed

lemma iou_value_commute: "iou_value a b = iou_value b a"
  by (simp add: iou_value_inter inter_area_commute add.commute)

text \<open>
  C3. For boxes built by the constructor, \<open>calculate_iou_fast\<close> never raises; it returns
  0 when the rectangles do not intersect, otherwise intersection area over union area,
  0 when the union area is zero, 1 for a rectangle of positive area against itself, and
  its result lies between 0 and 1.
\<close>

theorem overlapRatio_contract:
  assumes "a = BoundingBox_init ax1 ay1 ax2 ay2 atxt aconf afs"
    and "b = BoundingBox_init bx1 by1 bx2 by2 btxt bconf bfs"
  shows "calculate_iou_fast a b = Inr (overlapRatio a b)
    \<and> (\<not> rects_intersect a b \<longrightarrow> calculate_iou_fast a b = Inr 0)
    \<and> (rects_intersect a b \<and> union_area a b \<noteq> 0
         \<longrightarrow> calculate_iou_fast a b = Inr (inter_area a b / union_area a b))
    \<and> (union_area a b = 0 \<longrightarrow> calculate_iou_fast a b = Inr 0)
    \<and> (box_x1 a \<le> box_x2 a \<and> box_y1 a \<le> box_y2 a \<and> 0 < area a
         \<longrightarrow> calculate_iou_fast a a = Inr 1)
    \<and> 0 \<le> overlapRatio a b \<and> overlapRatio a b \<le> 1"
proof -
  have ca: "area a = (box_x2 a - box_x1 a) * (box_y2 a - box_y1 a)"
    unfolding assms(1) by (rule BoundingBox_init_area)
  have cb: "area b = (box_x2 b - box_x1 b) * (box_y2 b - box_y1 b)"
    unfolding assms(2) by (rule BoundingBox_init_area)
  have eq: "calculate_iou_fast a b = Inr (overlapRatio a b)"
    using iou_value_cached(1)[OF ca cb] by (simp add: calculate_iou_fast_returns)
  have self: "calculate_iou_fast a a = Inr 1"
    if "box_x1 a \<le> box_x2 a \<and> box_y1 a \<le> box_y2 a \<and> 0 < area a"
  proof -
    from that ca have "box_x1 a \<noteq> box_x2 a" "box_y1 a \<noteq> box_y2 a" by auto
    with that have lt: "box_x1 a < box_x2 a" "box_y1 a < box_y2 a" by auto
    then have "inter_area a a = area a" by (simp add: inter_area_def ca)
    with that show ?thesis
      by (simp add: calculate_iou_fast_returns iou_value_inter)
  qed
  show ?thesis
    using eq self iou_value_cached(2,3)[OF ca cb] iou_value_cached(1)[OF ca cb]
    by (simp add: overlapRatio_def)
qed

theorem overlapRatio_contract_witness:
  "\<not> rects_intersect (BoundingBox_init 0 0 10 10 ''A'' 1 8) (BoundingBox_init 20 20 30 30 ''B'' 1 8)
   \<and> calculate_iou_fast (BoundingBox_init 0 0 10 10 ''A'' 1 8) (BoundingBox_init 20 20 30 30 ''B'' 1 8) = Inr 0
   \<and> calculate_iou_fast (BoundingBox_init 0 0 10 10 ''A'' 1 8) (BoundingBox_init 0 0 10 10 ''A'' 1 8) = Inr 1
   \<and> rects_intersect (BoundingBox_init 0 0 3 1 ''A'' 1 8) (BoundingBox_init 1 0 4 1 ''B'' 1 8)
   \<and> calculate_iou_fast (BoundingBox_init 0 0 3 1 ''A'' 1 8) (BoundingBox_init 1 0 4 1 ''B'' 1 8) = Inr (1 / 2)
   \<and> union_area (BoundingBox_init 5 5 5 5 ''A'' 1 8) (BoundingBox_init 5 5 5 5 ''B'' 1 8) = 0
   \<and> calculate_iou_fast (BoundingBox_init 5 5 5 5 ''A'' 1 8) (BoundingBox_init 5 5 5 5 ''B'' 1 8) = Inr 0"
proof -
  let ?A = "BoundingBox_init 0 0 10 10 ''A'' 1 8"
  let ?B = "BoundingBox_init 20 20 30 30 ''B'' 1 8"
  let ?C = "BoundingBox_init 0 0 3 1 ''A'' 1 8"
  let ?D = "BoundingBox_init 1 0 4 1 ''B'' 1 8"
  let ?E = "BoundingBox_init 5 5 5 5 ''A'' 1 8"
  let ?F = "BoundingBox_init 5 5 5 5 ''B'' 1 8"
  have d: "\<not> rects_intersect ?A ?B"
    by (simp add: rects_intersect_def BoundingBox_init_def)
  have p: "box_x1 ?A \<le> box_x2 ?A \<and> box_y1 ?A \<le> box_y2 ?A \<and> 0 < area ?A"
    by (simp add: BoundingBox_init_def)
  have i: "rects_intersect ?C ?D"
    by (simp add: rects_intersect_def BoundingBox_init_def)
  have u: "union_area ?C ?D = 4" and n: "inter_area ?C ?D = 2"
    by (simp_all add: union_area_def inter_area_def BoundingBox_init_def)
  have z: "union_area ?E ?F = 0"
    by (simp add: union_area_def inter_area_def BoundingBox_init_def)
  have "calculate_iou_fast ?A ?B = Inr 0"
    using overlapRatio_contract[OF refl refl, of 0 0 10 10 "''A''" 1 8 20 20 30 30 "''B''" 1 8] d
    by blast
  moreover have "calculate_iou_fast ?A ?A = Inr 1"
    using overlapRatio_contract[OF refl refl, of 0 0 10 10 "''A''" 1 8 0 0 10 10 "''A''" 1 8] p
    by blast
  moreover have "calculate_iou_fast ?C ?D = Inr (1 / 2)"
    using overlapRatio_contract[OF refl refl, of 0 0 3 1 "''A''" 1 8 1 0 4 1 "''B''" 1 8] i u n
    by auto
  moreover have "calculate_iou_fast ?E ?F = Inr 0"
    using overlapRatio_contract[OF refl refl, of 5 5 5 5 "''A''" 1 8 5 5 5 5 "''B''" 1 8] z
    by blast
  ultimately show ?thesis using d i z by blast
qed

text \<open>
  C4. The overlap ratio is symmetric in its two boxes.
\<close>

theorem overlapRatio_symmetric:
  "calculate_iou_fast a b = calculate_iou_fast b a"
  by (simp add: calculate_iou_fast_returns iou_value_commute)

section \<open>The consensus loops compute the greedy scan\<close>

lemma cluster_loop_filter:
  "distinct (map fst ps) \<Longrightarrow>
   cluster_loop st thr s ps (cl, used) =
     Inr (cl @ map snd (filter (\<lambda>(j, b). j \<notin> used \<and> joins st thr s b) ps),
          used \<union> fst ` set (filter (\<lambda>(j, b). j \<notin> used \<and> joins st thr s b) ps))"
proof (induction ps arbitrary: cl used)
  case Nil
  then show ?case by simp
next
  case (Cons p ps)
  define F where "F u = filter (\<lambda>(j, b). j \<notin> u \<and> joins st thr s b)" for u :: "nat set"
  obtain j b where p: "p = (j, b)" by (cases p)
  from Cons.prems p have d: "distinct (map fst ps)" and j: "j \<notin> fst ` set ps" by auto
  have cong: "F (insert j used) ps = F used ps"
    unfolding F_def using j by (intro filter_cong) (auto simp: image_iff)
  have IH: "cluster_loop st thr s ps (cl', u) = Inr (cl' @ map snd (F u ps), u \<union> fst ` set (F u ps))"
    for cl' u
    unfolding F_def by (rule Cons.IH[OF d])
  have step: "F used ((j, b) # ps) = (if j \<notin> used \<and> joins st thr s b then (j, b) # F used ps else F used ps)"
    by (simp add: F_def)
  have "cluster_loop st thr s ((j, b) # ps) (cl, used)
        = Inr (cl @ map snd (F used ((j, b) # ps)), used \<union> fst ` set (F used ((j, b) # ps)))"
  proof (cases "j \<notin> used \<and> joins st thr s b")
    case True
    then have "cluster_loop st thr s ((j, b) # ps) (cl, used)
             = cluster_loop st thr s ps (cl @ [b], insert j used)"
      by (simp add: calculate_iou_fast_returns joins_def)
    also have "\<dots> = Inr ((cl @ [b]) @ map snd (F used ps), insert j used \<union> fst ` set (F used ps))"
      by (simp only: IH cong)
    finally show ?thesis using True by (simp add: step)
  next
    case False
    then have "cluster_loop st thr s ((j, b) # ps) (cl, used) = cluster_loop st thr s ps (cl, used)"
      by (auto simp add: calculate_iou_fast_returns joins_def)
    then show ?thesis using False by (simp add: step IH)
  qed
  then show ?case by (simp only: F_def p)
qed

lemma first_max_at_snoc:
  assumes "first_max_at key pre best"
  shows "first_max_at key (pre @ [x]) (if key x > key best then x else best)"
proof (cases "key x > key best")
  case True
  from assms have le: "\<forall>y \<in> set pre. key y \<le> key best"
    by (auto simp: first_max_at_def)
  have "\<forall>j < length pre. key ((pre @ [x]) ! j) < key x"
    using le True by (auto simp: nth_append intro: le_less_trans)
  moreover have "\<forall>y \<in> set (pre @ [x]). key y \<le> key x"
    using le True by auto
  ultimately show ?thesis using True
    unfolding first_max_at_def
    by (intro exI[of _ "length pre"]) simp
next
  case False
  from assms obtain i where i: "i < length pre" "pre ! i = best"
    "\<forall>y \<in> set pre. key y \<le> key best" "\<forall>j < i. key (pre ! j) < key best"
    by (auto simp: first_max_at_def)
  have "(pre @ [x]) ! i = best" using i by (simp add: nth_append)
  moreover have "\<forall>y \<in> set (pre @ [x]). key y \<le> key best" using i False by auto
  moreover have "\<forall>j < i. key ((pre @ [x]) ! j) < key best" using i by (simp add: nth_append)
  moreover have "i < length (pre @ [x])" using i by simp
  ultimately show ?thesis using False unfolding first_max_at_def by auto
qed

lemma py_max_from_first_max_at:
  "first_max_at key pre best \<Longrightarrow> first_max_at key (pre @ xs) (py_max_from key best xs)"
proof (induction xs arbitrary: pre best)
  case Nil
  then show ?case by simp
next
  case (Cons x xs)
  from Cons.IH[OF first_max_at_snoc[OF Cons.prems, of x]] show ?case by simp
qed

lemma first_max_at_find:
  assumes "first_max_at key L m"
  shows "find (\<lambda>x. \<forall>y \<in> set L. key y \<le> key x) L = Some m"
proof -
  from assms obtain i where i: "i < length L" "L ! i = m"
    "\<forall>y \<in> set L. key y \<le> key m" "\<forall>j < i. key (L ! j) < key m"
    by (auto simp: first_max_at_def)
  have m: "m \<in> set L" using i by auto
  have "\<not> (\<forall>y \<in> set L. key y \<le> key (L ! j))" if "j < i" for j
    using i(4) that m by (auto simp: not_le intro!: bexI[of _ m])
  then show ?thesis using i unfolding find_Some_iff by blast
qed

lemma py_max_by_representative:
  "c \<noteq> [] \<Longrightarrow> py_max_by (\<lambda>b. confidence (st b)) c = Inr (representative st c)"
proof -
  assume "c \<noteq> []"
  then obtain b xs where c: "c = b # xs" by (cases c) auto
  have "first_max_at (\<lambda>b. confidence (st b)) [b] b" by (simp add: first_max_at_def)
  from py_max_from_first_max_at[OF this, of xs]
  have "find (is_max_conf st c) c = Some (py_max_from (\<lambda>b. confidence (st b)) b xs)"
    unfolding c using first_max_at_find[of "\<lambda>b. confidence (st b)" "b # xs"]
    by (simp add: is_max_conf_def[abs_def])
  then show ?thesis by (simp add: py_max_by_def representative_def c)
qed

lemma representative_first_max:
  "c \<noteq> [] \<Longrightarrow> first_max_at (\<lambda>b. confidence (st b)) c (representative st c)"
proof -
  assume "c \<noteq> []"
  then obtain b xs where c: "c = b # xs" by (cases c) auto
  have "first_max_at (\<lambda>b. confidence (st b)) [b] b" by (simp add: first_max_at_def)
  from py_max_from_first_max_at[OF this, of xs] py_max_by_representative[of c st]
  show ?thesis by (simp add: c py_max_by_def)
qed

lemma enumerate_drop_step:
  "k < length xs \<Longrightarrow> enumerate k (drop k xs) = (k, xs ! k) # enumerate (Suc k) (drop (Suc k) xs)"
  by (simp add: Cons_nth_drop_Suc[symmetric])

lemma fst_enumerate_above:
  "(j, b) \<in> set (enumerate (Suc k) xs) \<Longrightarrow> k < j"
  by (auto simp: in_set_enumerate_eq)

lemma seed_cluster_step:
  assumes k: "k < length all" and nu: "k \<notin> used"
  shows "\<exists>used'.
           cluster_loop st thr (all ! k) (enumerate (k + 1) (drop (k + 1) all))
             ([all ! k], insert k used)
           = Inr (all ! k # filter (joins st thr (all ! k))
                              (map snd (filter (\<lambda>(j, b). j \<notin> used)
                                          (enumerate (Suc k) (drop (Suc k) all)))),
                  used')
         \<and> map snd (filter (\<lambda>(j, b). j \<notin> used') (enumerate (Suc k) (drop (Suc k) all)))
           = filter (\<lambda>b. \<not> joins st thr (all ! k) b)
               (map snd (filter (\<lambda>(j, b). j \<notin> used)
                           (enumerate (Suc k) (drop (Suc k) all))))"
proof -
  define s where "s = all ! k"
  define E where "E = enumerate (Suc k) (drop (Suc k) all)"
  define F where "F = filter (\<lambda>(j, b). j \<notin> insert k used \<and> joins st thr s b) E"
  define used' where "used' = insert k used \<union> fst ` set F"
  define rest where "rest = map snd (filter (\<lambda>(j, b). j \<notin> used) E)"
  have dist: "distinct (map fst E)" by (simp add: E_def)
  have above: "k < j" if "(j, b) \<in> set E" for j b
    using that unfolding E_def by (rule fst_enumerate_above)
  have cl: "cluster_loop st thr s (enumerate (k + 1) (drop (k + 1) all)) ([s], insert k used)
            = Inr (s # map snd F, used')"
    using cluster_loop_filter[OF dist, of st thr s "[s]" "insert k used"]
    by (simp add: F_def used'_def E_def)
  have A: "map snd F = filter (joins st thr s) rest"
    unfolding F_def rest_def filter_map filter_filter
    by (intro arg_cong[where f = "map snd"] filter_cong) (auto dest: above)
  have eqv: "j \<notin> used' \<longleftrightarrow> j \<notin> used \<and> \<not> joins st thr s b" if x: "(j, b) \<in> set E" for j b
  proof -
    have "j \<in> fst ` set F \<longleftrightarrow> j \<notin> used \<and> joins st thr s b"
    proof
      assume "j \<in> fst ` set F"
      then obtain b' where b': "(j, b') \<in> set E" "j \<notin> insert k used" "joins st thr s b'"
        by (auto simp: F_def)
      from eq_key_imp_eq_value[OF dist b'(1) x] have "b' = b" .
      with b' show "j \<notin> used \<and> joins st thr s b" by simp
    next
      assume "j \<notin> used \<and> joins st thr s b"
      moreover have "j \<noteq> k" using above[OF x] by auto
      ultimately have "(j, b) \<in> set F" using x by (simp add: F_def)
      then show "j \<in> fst ` set F" by force
    qed
    moreover have "j \<noteq> k" using above[OF x] by auto
    ultimately show ?thesis by (auto simp: used'_def)
  qed
  have "filter (\<lambda>(j, b). j \<notin> used') E = filter (\<lambda>(j, b). j \<notin> used \<and> \<not> joins st thr s b) E"
    using eqv by (intro filter_cong refl) fastforce
  also have "map snd \<dots> = filter (\<lambda>b. \<not> joins st thr s b) rest"
    unfolding rest_def filter_map filter_filter
    by (intro arg_cong[where f = "map snd"] filter_cong) auto
  finally have B: "map snd (filter (\<lambda>(j, b). j \<notin> used') E)
                   = filter (\<lambda>b. \<not> joins st thr s b) rest" .
  from cl A B show ?thesis unfolding s_def E_def rest_def by auto
qed

lemma voting_loop_spec:
  "\<exists>U. voting_loop st thr all (enumerate k (drop k all)) (final, used)
        = Inr (final @ consensus_spec st thr
                 (map snd (filter (\<lambda>(j, b). j \<notin> used) (enumerate k (drop k all)))), U)"
proof (induction "length all - k" arbitrary: k final used)
  case 0
  then show ?case by (simp add: consensus_spec_def)
next
  case (Suc d)
  then have k: "k < length all" and d: "d = length all - Suc k" by auto
  define s where "s = all ! k"
  define E where "E = enumerate (Suc k) (drop (Suc k) all)"
  define rest where "rest = map snd (filter (\<lambda>(j, b). j \<notin> used) E)"
  have En: "enumerate k (drop k all) = (k, s) # E"
    unfolding s_def E_def by (rule enumerate_drop_step[OF k])
  have IH: "\<exists>U. voting_loop st thr all E (final', used')
        = Inr (final' @ consensus_spec st thr (map snd (filter (\<lambda>(j, b). j \<notin> used') E)), U)"
    for final' used'
    unfolding E_def by (rule Suc.hyps(1)[OF d])
  show ?case
  proof (cases "k \<in> used")
    case True
    then show ?thesis using IH[of final used] by (simp add: En)
  next
    case False
    from seed_cluster_step[OF k False, of st thr]
    obtain used' where cl: "cluster_loop st thr s (enumerate (k + 1) (drop (k + 1) all))
             ([s], insert k used) = Inr (s # filter (joins st thr s) rest, used')"
      and B: "map snd (filter (\<lambda>(j, b). j \<notin> used') E) = filter (\<lambda>b. \<not> joins st thr s b) rest"
      unfolding s_def E_def rest_def by blast
    define r where "r = representative st (s # filter (joins st thr s) rest)"
    have step: "voting_loop st thr all ((k, s) # E) (final, used)
        = voting_loop st thr all E (final @ [r], used')"
      using False cl by (simp add: py_max_by_representative r_def)
    from IH[of "final @ [r]" used']
    obtain U where U: "voting_loop st thr all E (final @ [r], used')
        = Inr ((final @ [r]) @ consensus_spec st thr (map snd (filter (\<lambda>(j, b). j \<notin> used') E)), U)"
      by blast
    have "(final @ [r]) @ consensus_spec st thr (map snd (filter (\<lambda>(j, b). j \<notin> used') E))
          = final @ consensus_spec st thr (s # rest)"
      by (simp add: B consensus_spec_def r_def)
    with step U have "voting_loop st thr all ((k, s) # E) (final, used)
        = Inr (final @ consensus_spec st thr (s # rest), U)"
      by (simp only:)
    moreover have "map snd (filter (\<lambda>(j, b). j \<notin> used) ((k, s) # E)) = s # rest"
      using False by (simp add: rest_def)
    ultimately show ?thesis unfolding En by auto
  qed
qed

lemma voting_loop_clusters_spec:
  "\<exists>U. voting_loop_clusters st thr all (enumerate k (drop k all)) (clusters, used)
        = Inr (clusters @ consensus_clusters st thr
                 (map snd (filter (\<lambda>(j, b). j \<notin> used) (enumerate k (drop k all)))), U)"
proof (induction "length all - k" arbitrary: k clusters used)
  case 0
  then show ?case by simp
next
  case (Suc d)
  then have k: "k < length all" and d: "d = length all - Suc k" by auto
  define s where "s = all ! k"
  define E where "E = enumerate (Suc k) (drop (Suc k) all)"
  define rest where "rest = map snd (filter (\<lambda>(j, b). j \<notin> used) E)"
  have En: "enumerate k (drop k all) = (k, s) # E"
    unfolding s_def E_def by (rule enumerate_drop_step[OF k])
  have IH: "\<exists>U. voting_loop_clusters st thr all E (clusters', used')
        = Inr (clusters' @ consensus_clusters st thr
                 (map snd (filter (\<lambda>(j, b). j \<notin> used') E)), U)"
    for clusters' used'
    unfolding E_def by (rule Suc.hyps(1)[OF d])
  show ?case
  proof (cases "k \<in> used")
    case True
    then show ?thesis using IH[of clusters used] by (simp add: En)
  next
    case False
    from seed_cluster_step[OF k False, of st thr]
    obtain used' where cl: "cluster_loop st thr s (enumerate (k + 1) (drop (k + 1) all))
             ([s], insert k used) = Inr (s # filter (joins st thr s) rest, used')"
      and B: "map snd (filter (\<lambda>(j, b). j \<notin> used') E) = filter (\<lambda>b. \<not> joins st thr s b) rest"
      unfolding s_def E_def rest_def by blast
    define c where "c = s # filter (joins st thr s) rest"
    have step: "voting_loop_clusters st thr all ((k, s) # E) (clusters, used)
        = voting_loop_clusters st thr all E (clusters @ [c], used')"
      using False cl by (simp add: c_def)
    from IH[of "clusters @ [c]" used']
    obtain U where U: "voting_loop_clusters st thr all E (clusters @ [c], used')
        = Inr ((clusters @ [c]) @ consensus_clusters st thr
                 (map snd (filter (\<lambda>(j, b). j \<notin> used') E)), U)"
      by blast
    have "(clusters @ [c]) @ consensus_clusters st thr (map snd (filter (\<lambda>(j, b). j \<notin> used') E))
          = clusters @ consensus_clusters st thr (s # rest)"
      by (simp add: B c_def)
    with step U have "voting_loop_clusters st thr all ((k, s) # E) (clusters, used)
        = Inr (clusters @ consensus_clusters st thr (s # rest), U)"
      by (simp only:)
    moreover have "map snd (filter (\<lambda>(j, b). j \<notin> used) ((k, s) # E)) = s # rest"
      using False by (simp add: rest_def)
    ultimately show ?thesis unfolding En by auto
  qed
qed

lemma voting_clusters_spec:
  "voting_clusters st ocr_results thr
   = consensus_clusters st thr (concat (map snd ocr_results))"
proof -
  define all_boxes where "all_boxes = concat (map snd ocr_results)"
  from voting_loop_clusters_spec[of st thr all_boxes 0 "[]" "{}"]
  obtain U where U: "voting_loop_clusters st thr all_boxes (enumerate 0 all_boxes) ([], {})
       = Inr (consensus_clusters st thr all_boxes, U)"
    by auto
  have "voting_clusters st ocr_results thr
        = (case voting_loop_clusters st thr all_boxes (enumerate 0 all_boxes) ([], {}) of
             Inl e \<Rightarrow> []
           | Inr (clusters, used_indices) \<Rightarrow> clusters)"
    by (simp only: voting_clusters_def Let_def all_boxes_def)
  also have "\<dots> = consensus_clusters st thr all_boxes"
    by (simp add: U)
  finally show ?thesis by (simp only: all_boxes_def)
qed

lemma fast_ensemble_voting_spec:
  "fast_ensemble_voting st ocr_results thr
   = Inr (consensus_spec st thr (concat (map snd ocr_results)))"
proof -
  define all_boxes where "all_boxes = concat (map snd ocr_results)"
  from voting_loop_spec[of st thr all_boxes 0 "[]" "{}"]
  obtain U where U: "voting_loop st thr all_boxes (enumerate 0 all_boxes) ([], {})
       = Inr (consensus_spec st thr all_boxes, U)"
    by auto
  have "fast_ensemble_voting st ocr_results thr
        = (if all_boxes = [] then Inr []
           else case voting_loop st thr all_boxes (enumerate 0 all_boxes) ([], {}) of
                  Inl e \<Rightarrow> Inl e
                | Inr (final_boxes, used_indices) \<Rightarrow> Inr final_boxes)"
    by (simp only: fast_ensemble_voting_def Let_def all_boxes_def)
  also have "\<dots> = Inr (consensus_spec st thr all_boxes)"
    by (cases "all_boxes = []") (simp_all add: U consensus_spec_def)
  finally show ?thesis by (simp only: all_boxes_def)
qed

lemma consensus_clusters_nonempty:
  "c \<in> set (consensus_clusters st thr xs) \<Longrightarrow> c \<noteq> []"
  by (induction st thr xs rule: consensus_clusters.induct) auto

lemma mset_concat_consensus_clusters:
  "mset (concat (consensus_clusters st thr xs)) = mset xs"
proof (induction st thr xs rule: consensus_clusters.induct)
  case (1 st thr)
  then show ?case by simp
next
  case (2 st thr seed later)
  have "mset (filter (joins st thr seed) later) + mset (filter (\<lambda>b. \<not> joins st thr seed b) later)
        = mset later"
    by (simp only: mset_filter multiset_partition[symmetric])
  then show ?case using 2 by (simp add: add.assoc)
qed

lemma length_consensus_clusters:
  "length (consensus_clusters st thr xs) \<le> length xs"
proof (induction st thr xs rule: consensus_clusters.induct)
  case (1 st thr)
  then show ?case by simp
next
  case (2 st thr seed later)
  have "length (filter (\<lambda>b. \<not> joins st thr seed b) later) \<le> length later" by simp
  with 2 show ?case by (simp del: length_filter_le)
qed

lemma representative_member:
  "c \<noteq> [] \<Longrightarrow> representative st c \<in> set c"
  using representative_first_max[of c st] by (auto simp: first_max_at_def dest: nth_mem)

lemma joins_disjoint:
  "\<not> rects_intersect (st a) (st b) \<Longrightarrow> 0 \<le> thr \<Longrightarrow> \<not> joins st thr a b"
  by (simp add: joins_def iou_value_inter not_intersect_inter_area)

lemma rects_intersect_commute: "rects_intersect a b = rects_intersect b a"
  by (auto simp: rects_intersect_def max.commute min.commute)

lemma perms3:
  assumes "mset xs = {#a, b, c#}" and "a \<noteq> b" "a \<noteq> c" "b \<noteq> c"
  shows "xs = [a, b, c] \<or> xs = [a, c, b] \<or> xs = [b, a, c] \<or> xs = [b, c, a]
         \<or> xs = [c, a, b] \<or> xs = [c, b, a]"
proof -
  from assms(1) have "length xs = length [a, b, c]" by (intro mset_eq_length) simp
  then obtain x y z where xs: "xs = [x, y, z]"
    by (auto simp: length_Suc_conv)
  from assms(1) have "set xs = set [a, b, c]" by (intro mset_eq_setD) simp
  then have s: "{x, y, z} = {a, b, c}" by (simp add: xs)
  from assms have "distinct xs" using mset_eq_imp_distinct_iff[of xs "[a, b, c]"] by simp
  then have d: "x \<noteq> y" "x \<noteq> z" "y \<noteq> z" by (auto simp: xs)
  from s have "x \<in> {a, b, c}" "y \<in> {a, b, c}" "z \<in> {a, b, c}"
    "a \<in> {x, y, z}" "b \<in> {x, y, z}" "c \<in> {x, y, z}" by auto
  with d assms(2-4) show ?thesis unfolding xs by auto
qed

lemma example_three:
  assumes c: "confidence (st d1) = 9 / 10" "confidence (st d2) = 95 / 100"
      "confidence (st d3) = 3 / 10"
    and o: "calculate_iou_fast (st d1) (st d2) = Inr (1 / 2)"
    and n: "\<not> rects_intersect (st d1) (st d3)" "\<not> rects_intersect (st d2) (st d3)"
    and m: "mset xs = {#d1, d2, d3#}"
  shows "length (consensus_spec st (25 / 100) xs) = 2
       \<and> set (consensus_spec st (25 / 100) xs) = {d2, d3}
       \<and> (xs = [d1, d2, d3] \<longrightarrow> consensus_spec st (25 / 100) xs = [d2, d3])"
proof -
  have ne: "d1 \<noteq> d2" "d1 \<noteq> d3" "d2 \<noteq> d3" using c by auto
  have v12: "iou_value (st d1) (st d2) = 1 / 2"
    using o by (simp add: calculate_iou_fast_returns)
  have j: "joins st (25 / 100) d1 d2" "joins st (25 / 100) d2 d1"
    using v12 iou_value_commute[of "st d2" "st d1"] by (simp_all add: joins_def)
  have nj: "\<not> joins st (25 / 100) d1 d3" "\<not> joins st (25 / 100) d2 d3"
    "\<not> joins st (25 / 100) d3 d1" "\<not> joins st (25 / 100) d3 d2"
    using n by (simp_all add: joins_disjoint rects_intersect_commute)
  have r: "representative st [d1, d2] = d2" "representative st [d2, d1] = d2"
    "representative st [d3] = d3"
    using c by (simp_all add: representative_def is_max_conf_def)
  from perms3[OF m ne]
  show ?thesis
    using j nj r ne by (auto simp: consensus_spec_def)
qed

text \<open>
  C1. \<open>fast_ensemble_voting\<close> flattens the per-engine lists in dictionary order and, with
  the default threshold 0.25, returns the representatives of the clusters it builds.
  These are the clusters of the greedy scan: each is a seed (the first detection not yet
  used) with every later unused detection whose overlap ratio with the seed is strictly
  greater than 0.25, and its representative is the first member of maximal confidence.
  For D1 (0.9), D2 (0.95, overlap 0.5 with D1) and D3 (0.3, disjoint from both), in any
  order, the output holds exactly D2 and D3; in the order D1, D2, D3 it is [D2, D3].
\<close>

theorem consensus_engine_greedy_scan:
  "fast_ensemble_voting st ocr_results iou_threshold_default
     = Inr (consensus_spec st (25 / 100) (concat (map snd ocr_results)))
   \<and> voting_clusters st ocr_results iou_threshold_default
     = consensus_clusters st (25 / 100) (concat (map snd ocr_results))
   \<and> fast_ensemble_voting st ocr_results iou_threshold_default
     = Inr (map (representative st) (voting_clusters st ocr_results iou_threshold_default))
   \<and> (\<forall>c \<in> set (voting_clusters st ocr_results iou_threshold_default).
        \<exists>i < length c. c ! i = representative st c
           \<and> (\<forall>m \<in> set c. confidence (st m) \<le> confidence (st (c ! i)))
           \<and> (\<forall>j < i. confidence (st (c ! j)) < confidence (st (c ! i))))
   \<and> (confidence (st d1) = 9 / 10 \<and> confidence (st d2) = 95 / 100
        \<and> confidence (st d3) = 3 / 10
        \<and> calculate_iou_fast (st d1) (st d2) = Inr (1 / 2)
        \<and> \<not> rects_intersect (st d1) (st d3) \<and> \<not> rects_intersect (st d2) (st d3)
        \<and> mset (concat (map snd ocr_results)) = {#d1, d2, d3#}
       \<longrightarrow> (\<exists>out. fast_ensemble_voting st ocr_results iou_threshold_default = Inr out
                 \<and> length out = 2 \<and> set out = {d2, d3}
                 \<and> (concat (map snd ocr_results) = [d1, d2, d3] \<longrightarrow> out = [d2, d3])))"
proof (intro conjI ballI impI)
  show eq: "fast_ensemble_voting st ocr_results iou_threshold_default
     = Inr (consensus_spec st (25 / 100) (concat (map snd ocr_results)))"
    by (simp only: iou_threshold_default_def fast_ensemble_voting_spec)
  show cl: "voting_clusters st ocr_results iou_threshold_default
     = consensus_clusters st (25 / 100) (concat (map snd ocr_results))"
    by (simp only: iou_threshold_default_def voting_clusters_spec)
  show "fast_ensemble_voting st ocr_results iou_threshold_default
     = Inr (map (representative st) (voting_clusters st ocr_results iou_threshold_default))"
    by (simp only: eq cl consensus_spec_def)
  fix c assume "c \<in> set (voting_clusters st ocr_results iou_threshold_default)"
  then have "c \<noteq> []" unfolding cl by (rule consensus_clusters_nonempty)
  from representative_first_max[OF this, of st]
  show "\<exists>i < length c. c ! i = representative st c
           \<and> (\<forall>m \<in> set c. confidence (st m) \<le> confidence (st (c ! i)))
           \<and> (\<forall>j < i. confidence (st (c ! j)) < confidence (st (c ! i)))"
    unfolding first_max_at_def by auto
next
  assume "confidence (st d1) = 9 / 10 \<and> confidence (st d2) = 95 / 100
        \<and> confidence (st d3) = 3 / 10
        \<and> calculate_iou_fast (st d1) (st d2) = Inr (1 / 2)
        \<and> \<not> rects_intersect (st d1) (st d3) \<and> \<not> rects_intersect (st d2) (st d3)
        \<and> mset (concat (map snd ocr_results)) = {#d1, d2, d3#}"
  then have "length (consensus_spec st (25 / 100) (concat (map snd ocr_results))) = 2
       \<and> set (consensus_spec st (25 / 100) (concat (map snd ocr_results))) = {d2, d3}
       \<and> (concat (map snd ocr_results) = [d1, d2, d3]
            \<longrightarrow> consensus_spec st (25 / 100) (concat (map snd ocr_results)) = [d2, d3])"
    by (intro example_three) simp_all
  then show "\<exists>out. fast_ensemble_voting st ocr_results iou_threshold_default = Inr out
                 \<and> length out = 2 \<and> set out = {d2, d3}
                 \<and> (concat (map snd ocr_results) = [d1, d2, d3] \<longrightarrow> out = [d2, d3])"
    by (simp only: iou_threshold_default_def fast_ensemble_voting_spec) blast
qed

theorem consensus_engine_greedy_scan_witness:
  "confidence (demo_store 0) = 9 / 10 \<and> confidence (demo_store 1) = 95 / 100
   \<and> confidence (demo_store 2) = 3 / 10
   \<and> calculate_iou_fast (demo_store 0) (demo_store 1) = Inr (1 / 2)
   \<and> \<not> rects_intersect (demo_store 0) (demo_store 2)
   \<and> \<not> rects_intersect (demo_store 1) (demo_store 2)
   \<and> fast_ensemble_voting demo_store [(''tesseract'', [0, 1]), (''easyocr'', [2])]
         iou_threshold_default = Inr [1, 2]"
proof -
  have h: "confidence (demo_store 0) = 9 / 10 \<and> confidence (demo_store 1) = 95 / 100
        \<and> confidence (demo_store 2) = 3 / 10
        \<and> calculate_iou_fast (demo_store 0) (demo_store 1) = Inr (1 / 2)
        \<and> \<not> rects_intersect (demo_store 0) (demo_store 2)
        \<and> \<not> rects_intersect (demo_store 1) (demo_store 2)"
    by (simp add: demo_store_def BoundingBox_init_def calculate_iou_fast_def py_truediv_def
        rects_intersect_def)
  have m: "mset (concat (map snd [(''tesseract'', [0, 1]), (''easyocr'', [2::nat])])) = {#0, 1, 2#}"
    and l: "concat (map snd [(''tesseract'', [0, 1]), (''easyocr'', [2::nat])]) = [0, 1, 2]"
    by simp_all
  from consensus_engine_greedy_scan[of demo_store "[(''tesseract'', [0, 1]), (''easyocr'', [2])]" 0 1 2]
    h m l
  have "\<exists>out. fast_ensemble_voting demo_store [(''tesseract'', [0, 1]), (''easyocr'', [2])]
            iou_threshold_default = Inr out \<and> out = [1, 2]"
    by blast
  with h show ?thesis by simp
qed

text \<open>
  C10. \<open>fast_ensemble_voting\<close> always returns a list; it is the list of representatives
  of the clusters its loop builds, each representative is a member of its own cluster,
  the clusters together hold every input detection exactly once (so no detection is in
  two clusters),
  every returned detection is one of the input references, the output is no longer than
  the input, and an empty input gives an empty output.
\<close>

theorem consensus_output_from_input:
  "\<exists>out. fast_ensemble_voting st ocr_results thr = Inr out
     \<and> out = map (representative st) (voting_clusters st ocr_results thr)
     \<and> (\<forall>c \<in> set (voting_clusters st ocr_results thr). representative st c \<in> set c)
     \<and> mset (concat (voting_clusters st ocr_results thr))
         = mset (concat (map snd ocr_results))
     \<and> (distinct (concat (map snd ocr_results))
          \<longrightarrow> distinct (concat (voting_clusters st ocr_results thr)))
     \<and> set out \<subseteq> set (concat (map snd ocr_results))
     \<and> length out \<le> length (concat (map snd ocr_results))
     \<and> (concat (map snd ocr_results) = [] \<longrightarrow> out = [])"
proof -
  define xs where "xs = concat (map snd ocr_results)"
  define cs where "cs = voting_clusters st ocr_results thr"
  have cs: "cs = consensus_clusters st thr xs"
    unfolding cs_def xs_def by (rule voting_clusters_spec)
  have mem: "\<forall>c \<in> set cs. representative st c \<in> set c"
    unfolding cs by (auto intro: representative_member dest: consensus_clusters_nonempty)
  have ms: "mset (concat cs) = mset xs"
    unfolding cs by (rule mset_concat_consensus_clusters)
  have "set (map (representative st) cs) \<subseteq> set (concat cs)"
    using mem by auto
  also have "\<dots> = set xs" using ms by (rule mset_eq_setD)
  finally have sub: "set (map (representative st) cs) \<subseteq> set xs" .
  have len: "length (map (representative st) cs) \<le> length xs"
    unfolding cs by (simp add: length_consensus_clusters)
  have emp: "xs = [] \<longrightarrow> map (representative st) cs = []"
    by (simp add: cs)
  have dis: "distinct xs \<longrightarrow> distinct (concat cs)"
    using mset_eq_imp_distinct_iff[OF ms] by simp
  have "fast_ensemble_voting st ocr_results thr = Inr (map (representative st) cs)"
    by (simp add: fast_ensemble_voting_spec consensus_spec_def cs xs_def)
  with mem ms dis sub len emp show ?thesis
    unfolding cs_def xs_def by blast
qed

theorem consensus_output_from_input_witness:
  "distinct (concat (map snd [(''tesseract'', [0, 1]), (''easyocr'', [2::nat])]))
   \<and> voting_clusters demo_store [(''tesseract'', [0, 1]), (''easyocr'', [2])] (1 / 4)
       = [[0, 1], [2]]
   \<and> fast_ensemble_voting demo_store [(''tesseract'', [0, 1]), (''easyocr'', [2])] (1 / 4)
       = Inr [1, 2]
   \<and> fast_ensemble_voting demo_store [] (1 / 4) = Inr []"
proof -
  have j: "joins demo_store (1 / 4) 0 1" "\<not> joins demo_store (1 / 4) 0 2"
    by (simp_all add: joins_def iou_value_def demo_store_def BoundingBox_init_def
        calculate_iou_fast_def py_truediv_def)
  have cs: "voting_clusters demo_store [(''tesseract'', [0, 1]), (''easyocr'', [2])] (1 / 4)
            = [[0, 1], [2]]"
    using j by (simp add: voting_clusters_spec)
  have r: "representative demo_store [0, 1] = 1" "representative demo_store [2] = 2"
    by (simp_all add: representative_def is_max_conf_def demo_store_def BoundingBox_init_def)
  from consensus_output_from_input[of demo_store "[(''tesseract'', [0, 1]), (''easyocr'', [2])]" "1 / 4"]
  have "fast_ensemble_voting demo_store [(''tesseract'', [0, 1]), (''easyocr'', [2])] (1 / 4)
       = Inr [1, 2]"
    using cs r by auto
  moreover from consensus_output_from_input[of demo_store "[]" "1 / 4"]
  have "fast_ensemble_voting demo_store [] (1 / 4) = Inr []"
    by auto
  ultimately show ?thesis using cs by simp
qed


section \<open>The outline builder\<close>

lemma outline_loop_filter:
  "outline_loop st tb h1 h2 xs acc
   = acc @ map (\<lambda>(p, b). \<lparr>level = the (level_of h1 h2 (font_size (st b))),
                           entry_text = box_text (st b), page = p\<rparr>)
            (filter (\<lambda>(p, b). Some b \<noteq> tb \<and> heading_candidate (box_text (st b))
                       \<and> level_of h1 h2 (font_size (st b)) \<noteq> None) xs)"
proof (induction xs arbitrary: acc)
  case Nil
  then show ?case by simp
next
  case (Cons x xs)
  obtain p b where x: "x = (p, b)" by (cases x)
  show ?case unfolding x
    by (auto simp: Cons.IH heading_candidate_def Let_def not_less not_le split: option.splits)
qed

lemma median_size_nth:
  "sizes \<noteq> [] \<Longrightarrow> median_size sizes = Inr (sort sizes ! (length sizes div 2))"
  by (simp add: median_size_def py_getitem_def Let_def)

lemma median_positional:
  fixes sizes :: "rat list"
  assumes "sizes \<noteq> []"
  defines "m \<equiv> sort sizes ! (length sizes div 2)"
  shows "m \<in> set sizes"
    and "length (filter (\<lambda>x. x < m) sizes) \<le> length sizes div 2"
    and "length (filter (\<lambda>x. m < x) sizes) \<le> (length sizes - 1) div 2"
proof -
  define s where "s = sort sizes"
  define k where "k = length sizes div 2"
  have len: "length s = length sizes" and srt: "sorted s" and ms: "mset s = mset sizes"
    by (simp_all add: s_def)
  have k: "k < length s" using assms(1) by (simp add: k_def len)
  have m: "m = s ! k" by (simp add: m_def s_def k_def)
  show "m \<in> set sizes" using k m ms by (metis nth_mem mset_eq_setD)
  have cnt: "length (filter P sizes) = length (filter P s)" for P
    using ms by (metis mset_filter size_mset)
  have hi: "\<forall>x \<in> set (drop k s). m \<le> x"
    using srt k m by (auto simp: in_set_conv_nth sorted_iff_nth_mono)
  have lo: "\<forall>x \<in> set (take (Suc k) s). x \<le> m"
    using srt k m by (auto simp: in_set_conv_nth sorted_iff_nth_mono)
  have "filter (\<lambda>x. x < m) s = filter (\<lambda>x. x < m) (take k s) @ filter (\<lambda>x. x < m) (drop k s)"
    by (metis append_take_drop_id filter_append)
  moreover have "filter (\<lambda>x. x < m) (drop k s) = []"
    using hi by (auto simp: filter_empty_conv)
  ultimately have "length (filter (\<lambda>x. x < m) s) \<le> length (take k s)"
    by (simp add: le_trans[OF length_filter_le])
  then show "length (filter (\<lambda>x. x < m) sizes) \<le> length sizes div 2"
    using k by (simp add: cnt k_def len)
  have "filter (\<lambda>x. m < x) s
        = filter (\<lambda>x. m < x) (take (Suc k) s) @ filter (\<lambda>x. m < x) (drop (Suc k) s)"
    by (metis append_take_drop_id filter_append)
  moreover have "filter (\<lambda>x. m < x) (take (Suc k) s) = []"
    using lo by (auto simp: filter_empty_conv)
  ultimately have "length (filter (\<lambda>x. m < x) s) \<le> length (drop (Suc k) s)"
    by (simp add: le_trans[OF length_filter_le])
  then show "length (filter (\<lambda>x. m < x) sizes) \<le> (length sizes - 1) div 2"
    using k by (simp add: cnt k_def len)
qed

lemma py_max_by_first_max:
  "xs \<noteq> [] \<Longrightarrow> \<exists>m. py_max_by key xs = Inr m \<and> first_max_at key xs m"
proof -
  assume "xs \<noteq> []"
  then obtain b ys where xs: "xs = b # ys" by (cases xs) auto
  have "first_max_at key [b] b" by (simp add: first_max_at_def)
  from py_max_from_first_max_at[OF this, of ys]
  show ?thesis by (simp add: xs py_max_by_def)
qed

lemma title_box_of_char:
  "\<exists>tb. title_box_of st abp = Inr tb
     \<and> (first_page_boxes abp = [] \<longrightarrow> tb = None)
     \<and> (first_page_boxes abp \<noteq> [] \<longrightarrow>
           (\<exists>t. tb = Some t \<and> first_max_at (\<lambda>b. font_size (st b)) (first_page_boxes abp) t))"
proof (cases "first_page_boxes abp = []")
  case True
  then show ?thesis by (simp add: title_box_of_def)
next
  case False
  from py_max_by_first_max[OF this, of "\<lambda>b. font_size (st b)"]
  show ?thesis using False by (auto simp: title_box_of_def)
qed

lemma create_document_outline_char:
  assumes "title_box_of st abp = Inr tb"
  shows "create_document_outline st abp
     = Inr \<lparr>title = document_title_of st tb,
            outline = (if all_font_sizes st abp = [] then []
                       else outline_loop st tb
                              (sort (all_font_sizes st abp) ! (length (all_font_sizes st abp) div 2) * (16 / 10))
                              (sort (all_font_sizes st abp) ! (length (all_font_sizes st abp) div 2) * (13 / 10))
                              (sorted_boxes_of st abp) [])\<rparr>"
proof (cases "abp = []")
  case True
  with assms have "tb = None" by (simp add: title_box_of_def first_page_boxes_def)
  then show ?thesis using True
    by (simp add: create_document_outline_def document_title_of_def all_font_sizes_def)
next
  case False
  then show ?thesis using assms
    by (simp add: create_document_outline_def Let_def median_size_nth)
qed

lemma demo_title: "title_box_of outline_demo_store outline_demo_input = Inr (Some 0)"
  by (simp add: title_box_of_def first_page_boxes_def outline_demo_input_def py_max_by_def)

lemma demo_sizes: "all_font_sizes outline_demo_store outline_demo_input
   = [24, 24, 18, 14, 20, 10, 10, 10, 10, 10, 10]"
  by (simp add: all_font_sizes_def outline_demo_input_def outline_demo_store_def)

lemma demo_median: "median_size [24, 24, 18, 14, 20, 10, 10, 10, 10, 10, 10] = Inr 10"
  by (simp add: median_size_def py_getitem_def)

lemma demo_sorted: "sorted_boxes_of outline_demo_store outline_demo_input = outline_demo_input"
  by (simp add: sorted_boxes_of_def outline_demo_input_def outline_demo_store_def)

lemma demo_outline:
  "create_document_outline outline_demo_store outline_demo_input
   = Inr \<lparr>title = ''Report Title'',
          outline = [\<lparr>level = ''H1'', entry_text = ''Report Title'', page = 1\<rparr>,
                     \<lparr>level = ''H1'', entry_text = ''Chapter One'', page = 1\<rparr>,
                     \<lparr>level = ''H2'', entry_text = ''Section 1.1'', page = 1\<rparr>]\<rparr>"
  by (simp add: create_document_outline_def demo_title demo_sizes demo_median demo_sorted)
    (simp add: outline_demo_input_def outline_demo_store_def document_title_of_def
      level_of_def ends_with_period_def count_spaces_def)

lemma level_of_ordered:
  assumes "h2 \<le> h1"
  shows "level_of h1 h2 fs \<noteq> None \<longleftrightarrow> h2 \<le> fs"
    and "h2 \<le> fs \<Longrightarrow> the (level_of h1 h2 fs) = (if h1 \<le> fs then ''H1'' else ''H2'')"
  using assms by (auto simp: level_of_def)

lemma thresholds_ordered:
  fixes m :: rat
  shows "0 \<le> m \<Longrightarrow> m * (13 / 10) \<le> m * (16 / 10)"
  by (intro mult_left_mono) simp_all

lemma all_font_sizes_empty_no_candidate:
  assumes "all_font_sizes st abp = []" and "(p, b) \<in> set abp"
  shows "\<not> heading_candidate (box_text (st b))"
proof -
  from assms have "\<not> length (box_text (st b)) > 2"
    by (auto simp: all_font_sizes_def filter_empty_conv)
  then show ?thesis by (simp add: heading_candidate_def)
qed

lemma median_member_font:
  assumes "all_font_sizes st abp \<noteq> []"
  shows "\<exists>(p, b) \<in> set abp. sort (all_font_sizes st abp) ! (length (all_font_sizes st abp) div 2)
           = font_size (st b)"
proof -
  from median_positional(1)[OF assms]
  show ?thesis by (auto simp: all_font_sizes_def)
qed

text \<open>
  C5. For a non-empty input the title is the text of the first page-0 detection of
  maximal font size, and the empty string when page 0 has no detection. The outline is
  built from the sorted items whose reference differs from the title object's: the
  title is skipped by identity, and an object elsewhere with the same text and font size
  is still classified.
\<close>

theorem title_detection:
  assumes "abp \<noteq> []"
  shows "\<exists>res tb. create_document_outline st abp = Inr res \<and> title_box_of st abp = Inr tb
     \<and> (first_page_boxes abp = [] \<longrightarrow> tb = None \<and> title res = [])
     \<and> (first_page_boxes abp \<noteq> [] \<longrightarrow>
          (\<exists>t. tb = Some t \<and> title res = box_text (st t)
             \<and> (\<exists>i < length (first_page_boxes abp). first_page_boxes abp ! i = t
                  \<and> (\<forall>b \<in> set (first_page_boxes abp). font_size (st b) \<le> font_size (st t))
                  \<and> (\<forall>j < i. font_size (st (first_page_boxes abp ! j)) < font_size (st t)))))
     \<and> (\<exists>h1 h2. outline res
           = map (\<lambda>(p, b). \<lparr>level = the (level_of h1 h2 (font_size (st b))),
                              entry_text = box_text (st b), page = p\<rparr>)
               (filter (\<lambda>(p, b). Some b \<noteq> tb \<and> heading_candidate (box_text (st b))
                          \<and> level_of h1 h2 (font_size (st b)) \<noteq> None)
                  (sorted_boxes_of st abp)))"
proof -
  from title_box_of_char[of st abp] obtain tb where tb: "title_box_of st abp = Inr tb"
    and none: "first_page_boxes abp = [] \<longrightarrow> tb = None"
    and some: "first_page_boxes abp \<noteq> [] \<longrightarrow>
           (\<exists>t. tb = Some t \<and> first_max_at (\<lambda>b. font_size (st b)) (first_page_boxes abp) t)"
    by blast
  define res where "res = \<lparr>title = document_title_of st tb,
            outline = (if all_font_sizes st abp = [] then []
                       else outline_loop st tb
                              (sort (all_font_sizes st abp) ! (length (all_font_sizes st abp) div 2) * (16 / 10))
                              (sort (all_font_sizes st abp) ! (length (all_font_sizes st abp) div 2) * (13 / 10))
                              (sorted_boxes_of st abp) [])\<rparr>"
  have r: "create_document_outline st abp = Inr res"
    unfolding res_def by (rule create_document_outline_char[OF tb])
  have t0: "first_page_boxes abp = [] \<longrightarrow> tb = None \<and> title res = []"
    using none by (auto simp: res_def document_title_of_def)
  have t1: "first_page_boxes abp \<noteq> [] \<longrightarrow>
          (\<exists>t. tb = Some t \<and> title res = box_text (st t)
             \<and> (\<exists>i < length (first_page_boxes abp). first_page_boxes abp ! i = t
                  \<and> (\<forall>b \<in> set (first_page_boxes abp). font_size (st b) \<le> font_size (st t))
                  \<and> (\<forall>j < i. font_size (st (first_page_boxes abp ! j)) < font_size (st t))))"
    using some by (auto simp: res_def document_title_of_def first_max_at_def)
  have o: "\<exists>h1 h2. outline res
           = map (\<lambda>(p, b). \<lparr>level = the (level_of h1 h2 (font_size (st b))),
                              entry_text = box_text (st b), page = p\<rparr>)
               (filter (\<lambda>(p, b). Some b \<noteq> tb \<and> heading_candidate (box_text (st b))
                          \<and> level_of h1 h2 (font_size (st b)) \<noteq> None)
                  (sorted_boxes_of st abp))"
  proof (cases "all_font_sizes st abp = []")
    case True
    have "filter (\<lambda>(p, b). Some b \<noteq> tb \<and> heading_candidate (box_text (st b))
                          \<and> level_of 0 0 (font_size (st b)) \<noteq> None)
                  (sorted_boxes_of st abp) = []"
      using all_font_sizes_empty_no_candidate[OF True]
      by (auto simp: filter_empty_conv sorted_boxes_of_def)
    then show ?thesis using True by (intro exI[of _ 0]) (simp add: res_def)
  next
    case False
    then show ?thesis
      by (intro exI[of _ "sort (all_font_sizes st abp) ! (length (all_font_sizes st abp) div 2) * (16 / 10)"]
          exI[of _ "sort (all_font_sizes st abp) ! (length (all_font_sizes st abp) div 2) * (13 / 10)"])
        (simp add: res_def outline_loop_filter)
  qed
  from r tb t0 t1 o show ?thesis by blast
qed

theorem title_detection_witness:
  "outline_demo_input \<noteq> [] \<and> first_page_boxes outline_demo_input \<noteq> []
   \<and> outline_demo_store 0 = outline_demo_store 1
   \<and> create_document_outline outline_demo_store outline_demo_input
       = Inr \<lparr>title = ''Report Title'',
              outline = [\<lparr>level = ''H1'', entry_text = ''Report Title'', page = 1\<rparr>,
                         \<lparr>level = ''H1'', entry_text = ''Chapter One'', page = 1\<rparr>,
                         \<lparr>level = ''H2'', entry_text = ''Section 1.1'', page = 1\<rparr>]\<rparr>
   \<and> first_page_boxes [(1, 2)] = []
   \<and> (\<exists>res. create_document_outline outline_demo_store [(1, 2)] = Inr res \<and> title res = [])"
proof -
  have ne: "outline_demo_input \<noteq> []" and fp: "first_page_boxes outline_demo_input \<noteq> []"
    and same: "outline_demo_store 0 = outline_demo_store 1"
    and fp0: "first_page_boxes [(1, 2)] = []"
    by (simp_all add: outline_demo_input_def first_page_boxes_def outline_demo_store_def)
  from title_detection[OF ne, of outline_demo_store] fp
  have "\<exists>res t. create_document_outline outline_demo_store outline_demo_input = Inr res
          \<and> title_box_of outline_demo_store outline_demo_input = Inr (Some t)
          \<and> title res = box_text (outline_demo_store t)"
    by blast
  then have a: "create_document_outline outline_demo_store outline_demo_input
       = Inr \<lparr>title = ''Report Title'',
              outline = [\<lparr>level = ''H1'', entry_text = ''Report Title'', page = 1\<rparr>,
                         \<lparr>level = ''H1'', entry_text = ''Chapter One'', page = 1\<rparr>,
                         \<lparr>level = ''H2'', entry_text = ''Section 1.1'', page = 1\<rparr>]\<rparr>"
    by (simp add: demo_outline)
  have "[(1, 2)] \<noteq> ([] :: (int \<times> ref) list)" by simp
  from title_detection[OF this, of outline_demo_store] fp0
  have "\<exists>res. create_document_outline outline_demo_store [(1, 2)] = Inr res \<and> title res = []"
    by blast
  with ne fp same fp0 a show ?thesis by blast
qed

text \<open>
  C6. The thresholds come from the positional median of the font sizes of all detections
  whose text is longer than 2 characters: the element at index \<open>n div 2\<close> of the sorted
  list (at most \<open>n div 2\<close> sizes are smaller and at most \<open>(n - 1) div 2\<close> are larger), with
  H1 threshold 1.6 times and H2 threshold 1.3 times the median. With no such detection
  the result is the title with an empty outline. For [8, 10, 10, 12, 30] the median is
  10, not the mean 14.
\<close>

theorem median_thresholds:
  "(all_font_sizes st abp = [] \<longrightarrow>
      (\<exists>tb. title_box_of st abp = Inr tb
         \<and> create_document_outline st abp
             = Inr \<lparr>title = document_title_of st tb, outline = []\<rparr>))
   \<and> (all_font_sizes st abp \<noteq> [] \<longrightarrow>
      (\<exists>tb m. title_box_of st abp = Inr tb
         \<and> median_size (all_font_sizes st abp) = Inr m
         \<and> m = sort (all_font_sizes st abp) ! (length (all_font_sizes st abp) div 2)
         \<and> m \<in> set (all_font_sizes st abp)
         \<and> length (filter (\<lambda>x. x < m) (all_font_sizes st abp))
             \<le> length (all_font_sizes st abp) div 2
         \<and> length (filter (\<lambda>x. m < x) (all_font_sizes st abp))
             \<le> (length (all_font_sizes st abp) - 1) div 2
         \<and> create_document_outline st abp
             = Inr \<lparr>title = document_title_of st tb,
                    outline = outline_loop st tb (m * (16 / 10)) (m * (13 / 10))
                                (sorted_boxes_of st abp) []\<rparr>))
   \<and> median_size [8, 10, 10, 12, 30] = Inr 10
   \<and> (8 + 10 + 10 + 12 + 30) / 5 \<noteq> (10 :: rat)"
proof -
  from title_box_of_char[of st abp] obtain tb where tb: "title_box_of st abp = Inr tb"
    by blast
  note c = create_document_outline_char[OF tb]
  have a: "all_font_sizes st abp = [] \<longrightarrow>
      (\<exists>tb. title_box_of st abp = Inr tb
         \<and> create_document_outline st abp
             = Inr \<lparr>title = document_title_of st tb, outline = []\<rparr>)"
    using tb c by auto
  have b: "\<exists>tb m. title_box_of st abp = Inr tb
         \<and> median_size (all_font_sizes st abp) = Inr m
         \<and> m = sort (all_font_sizes st abp) ! (length (all_font_sizes st abp) div 2)
         \<and> m \<in> set (all_font_sizes st abp)
         \<and> length (filter (\<lambda>x. x < m) (all_font_sizes st abp))
             \<le> length (all_font_sizes st abp) div 2
         \<and> length (filter (\<lambda>x. m < x) (all_font_sizes st abp))
             \<le> (length (all_font_sizes st abp) - 1) div 2
         \<and> create_document_outline st abp
             = Inr \<lparr>title = document_title_of st tb,
                    outline = outline_loop st tb (m * (16 / 10)) (m * (13 / 10))
                                (sorted_boxes_of st abp) []\<rparr>"
    if ne: "all_font_sizes st abp \<noteq> []"
    using tb c median_size_nth[OF ne] median_positional[OF ne] ne by auto
  have e: "median_size [8, 10, 10, 12, 30] = Inr 10"
    by (simp add: median_size_def py_getitem_def)
  have f: "(8 + 10 + 10 + 12 + 30) / 5 \<noteq> (10 :: rat)" by simp
  from a b e f show ?thesis by blast
qed

theorem median_thresholds_witness:
  "all_font_sizes outline_demo_store outline_demo_input \<noteq> []
   \<and> median_size (all_font_sizes outline_demo_store outline_demo_input) = Inr 10
   \<and> create_document_outline outline_demo_store outline_demo_input
       = Inr \<lparr>title = ''Report Title'',
              outline = outline_loop outline_demo_store (Some 0) 16 13
                          (sorted_boxes_of outline_demo_store outline_demo_input) []\<rparr>
   \<and> all_font_sizes outline_demo_store [(0, 5)] \<noteq> []
   \<and> all_font_sizes (\<lambda>r. outline_demo_store 5 \<lparr>box_text := ''ab''\<rparr>) [(0, 5)] = []
   \<and> create_document_outline (\<lambda>r. outline_demo_store 5 \<lparr>box_text := ''ab''\<rparr>) [(0, 5)]
       = Inr \<lparr>title = ''ab'', outline = []\<rparr>"
proof -
  have ne: "all_font_sizes outline_demo_store outline_demo_input \<noteq> []"
    by (simp add: demo_sizes)
  have m: "median_size (all_font_sizes outline_demo_store outline_demo_input) = Inr 10"
    by (simp add: demo_sizes demo_median)
  from median_thresholds[of outline_demo_store outline_demo_input] ne
  obtain tb m' where "title_box_of outline_demo_store outline_demo_input = Inr tb"
    "median_size (all_font_sizes outline_demo_store outline_demo_input) = Inr m'"
    "create_document_outline outline_demo_store outline_demo_input
             = Inr \<lparr>title = document_title_of outline_demo_store tb,
                    outline = outline_loop outline_demo_store tb (m' * (16 / 10)) (m' * (13 / 10))
                                (sorted_boxes_of outline_demo_store outline_demo_input) []\<rparr>"
    by blast
  then have a: "create_document_outline outline_demo_store outline_demo_input
       = Inr \<lparr>title = ''Report Title'',
              outline = outline_loop outline_demo_store (Some 0) 16 13
                          (sorted_boxes_of outline_demo_store outline_demo_input) []\<rparr>"
    using m by (auto simp: demo_title document_title_of_def outline_demo_store_def)
  let ?st = "\<lambda>r::ref. outline_demo_store 5 \<lparr>box_text := ''ab''\<rparr>"
  have e: "all_font_sizes ?st [(0, 5)] = []"
    and ne2: "all_font_sizes outline_demo_store [(0, 5)] \<noteq> []"
    by (simp_all add: all_font_sizes_def outline_demo_store_def)
  have t: "title_box_of ?st [(0, 5)] = Inr (Some 5)"
    by (simp add: title_box_of_def first_page_boxes_def py_max_by_def)
  from median_thresholds[of ?st "[(0, 5)]"] e t
  have b: "create_document_outline ?st [(0, 5)] = Inr \<lparr>title = ''ab'', outline = []\<rparr>"
    by (auto simp: document_title_of_def)
  from ne m a ne2 e b show ?thesis by blast
qed

text \<open>
  C7. For detections with non-negative font sizes, the outline holds one entry for each
  item (in sorted order) that is not the title object, whose text has 3 to 120
  characters, does not end with a period, has at most 10 spaces, and whose font size is
  at least the H2 threshold; the level is H1 when the font size is at least the H1
  threshold and H2 otherwise. Nothing else is emitted.
\<close>

theorem heading_classification:
  assumes "\<forall>(p, b) \<in> set abp. 0 \<le> font_size (st b)"
  shows "\<exists>res tb. create_document_outline st abp = Inr res \<and> title_box_of st abp = Inr tb
     \<and> mset (sorted_boxes_of st abp) = mset abp
     \<and> (all_font_sizes st abp = [] \<longrightarrow>
           outline res = [] \<and> (\<forall>(p, b) \<in> set abp. \<not> heading_candidate (box_text (st b))))
     \<and> (all_font_sizes st abp \<noteq> [] \<longrightarrow>
           (\<exists>m. median_size (all_font_sizes st abp) = Inr m
              \<and> outline res
                  = map (heading_entry st (m * (16 / 10)))
                      (filter (\<lambda>(p, b). Some b \<noteq> tb \<and> heading_candidate (box_text (st b))
                                 \<and> m * (13 / 10) \<le> font_size (st b))
                         (sorted_boxes_of st abp))))"
proof -
  from title_box_of_char[of st abp] obtain tb where tb: "title_box_of st abp = Inr tb"
    by blast
  define sizes where "sizes = all_font_sizes st abp"
  define m where "m = sort sizes ! (length sizes div 2)"
  define res where "res = \<lparr>title = document_title_of st tb,
            outline = (if sizes = [] then []
                       else outline_loop st tb (m * (16 / 10)) (m * (13 / 10))
                              (sorted_boxes_of st abp) [])\<rparr>"
  have r: "create_document_outline st abp = Inr res"
    unfolding res_def m_def sizes_def by (rule create_document_outline_char[OF tb])
  have p: "mset (sorted_boxes_of st abp) = mset abp"
    by (simp add: sorted_boxes_of_def)
  have e: "sizes = [] \<longrightarrow>
           outline res = [] \<and> (\<forall>(p, b) \<in> set abp. \<not> heading_candidate (box_text (st b)))"
    using all_font_sizes_empty_no_candidate[of st abp]
    by (auto simp: res_def sizes_def)
  have n: "median_size sizes = Inr m
              \<and> outline res
                  = map (heading_entry st (m * (16 / 10)))
                      (filter (\<lambda>(p, b). Some b \<noteq> tb \<and> heading_candidate (box_text (st b))
                                 \<and> m * (13 / 10) \<le> font_size (st b))
                         (sorted_boxes_of st abp))"
    if ne: "sizes \<noteq> []"
  proof -
    define h1 where "h1 = m * (16 / 10)"
    define h2 where "h2 = m * (13 / 10)"
    from median_member_font[of st abp] ne assms have m0: "0 \<le> m"
      by (auto simp: m_def sizes_def)
    have ord: "h2 \<le> h1" unfolding h1_def h2_def by (rule thresholds_ordered[OF m0])
    have "filter (\<lambda>(p, b). Some b \<noteq> tb \<and> heading_candidate (box_text (st b))
                       \<and> level_of h1 h2 (font_size (st b)) \<noteq> None)
             (sorted_boxes_of st abp)
          = filter (\<lambda>(p, b). Some b \<noteq> tb \<and> heading_candidate (box_text (st b))
                                 \<and> h2 \<le> font_size (st b))
             (sorted_boxes_of st abp)"
      by (simp only: level_of_ordered(1)[OF ord])
    moreover have "map (\<lambda>(p, b). \<lparr>level = the (level_of h1 h2 (font_size (st b))),
                           entry_text = box_text (st b), page = p\<rparr>)
            (filter (\<lambda>(p, b). Some b \<noteq> tb \<and> heading_candidate (box_text (st b))
                                 \<and> h2 \<le> font_size (st b))
             (sorted_boxes_of st abp))
         = map (heading_entry st h1)
            (filter (\<lambda>(p, b). Some b \<noteq> tb \<and> heading_candidate (box_text (st b))
                                 \<and> h2 \<le> font_size (st b))
             (sorted_boxes_of st abp))"
      by (rule map_cong[OF refl]) (auto simp: heading_entry_def level_of_ordered(2)[OF ord])
    ultimately have "outline_loop st tb h1 h2 (sorted_boxes_of st abp) []
         = map (heading_entry st h1)
            (filter (\<lambda>(p, b). Some b \<noteq> tb \<and> heading_candidate (box_text (st b))
                                 \<and> h2 \<le> font_size (st b))
             (sorted_boxes_of st abp))"
      by (simp only: outline_loop_filter append_Nil)
    then have "outline res
         = map (heading_entry st (m * (16 / 10)))
            (filter (\<lambda>(p, b). Some b \<noteq> tb \<and> heading_candidate (box_text (st b))
                                 \<and> m * (13 / 10) \<le> font_size (st b))
             (sorted_boxes_of st abp))"
      using ne unfolding h1_def h2_def res_def by simp
    moreover have "median_size sizes = Inr m"
      unfolding m_def by (rule median_size_nth[OF ne])
    ultimately show ?thesis by blast
  qed
  from r tb p e n show ?thesis unfolding sizes_def by blast
qed

theorem heading_classification_witness:
  "list_all (\<lambda>(p, b). 0 \<le> font_size (outline_demo_store b)) outline_demo_input
   \<and> all_font_sizes outline_demo_store outline_demo_input \<noteq> []
   \<and> (\<exists>res. create_document_outline outline_demo_store outline_demo_input = Inr res
        \<and> outline res
            = map (heading_entry outline_demo_store 16)
                (filter (\<lambda>(p, b). b \<noteq> 0 \<and> heading_candidate (box_text (outline_demo_store b))
                           \<and> 13 \<le> font_size (outline_demo_store b))
                   (sorted_boxes_of outline_demo_store outline_demo_input))
        \<and> outline res = [\<lparr>level = ''H1'', entry_text = ''Report Title'', page = 1\<rparr>,
                         \<lparr>level = ''H1'', entry_text = ''Chapter One'', page = 1\<rparr>,
                         \<lparr>level = ''H2'', entry_text = ''Section 1.1'', page = 1\<rparr>])"
proof -
  have h: "\<forall>(p, b) \<in> set outline_demo_input. 0 \<le> font_size (outline_demo_store b)"
    by (simp add: outline_demo_input_def outline_demo_store_def)
  have ne: "all_font_sizes outline_demo_store outline_demo_input \<noteq> []"
    by (simp add: demo_sizes)
  have m: "median_size (all_font_sizes outline_demo_store outline_demo_input) = Inr 10"
    by (simp add: demo_sizes demo_median)
  from heading_classification[OF h] ne
  obtain res tb m' where "create_document_outline outline_demo_store outline_demo_input = Inr res"
    "title_box_of outline_demo_store outline_demo_input = Inr tb"
    "median_size (all_font_sizes outline_demo_store outline_demo_input) = Inr m'"
    "outline res
       = map (heading_entry outline_demo_store (m' * (16 / 10)))
           (filter (\<lambda>(p, b). Some b \<noteq> tb \<and> heading_candidate (box_text (outline_demo_store b))
                      \<and> m' * (13 / 10) \<le> font_size (outline_demo_store b))
              (sorted_boxes_of outline_demo_store outline_demo_input))"
    by blast
  note f = this
  have a: "outline res
            = map (heading_entry outline_demo_store 16)
                (filter (\<lambda>(p, b). b \<noteq> 0 \<and> heading_candidate (box_text (outline_demo_store b))
                           \<and> 13 \<le> font_size (outline_demo_store b))
                   (sorted_boxes_of outline_demo_store outline_demo_input))"
    using f m by (auto simp: demo_title)
  have "res = \<lparr>title = ''Report Title'',
          outline = [\<lparr>level = ''H1'', entry_text = ''Report Title'', page = 1\<rparr>,
                     \<lparr>level = ''H1'', entry_text = ''Chapter One'', page = 1\<rparr>,
                     \<lparr>level = ''H2'', entry_text = ''Section 1.1'', page = 1\<rparr>]\<rparr>"
    using f(1) by (simp add: demo_outline)
  then have b: "outline res
       = [\<lparr>level = ''H1'', entry_text = ''Report Title'', page = 1\<rparr>,
          \<lparr>level = ''H1'', entry_text = ''Chapter One'', page = 1\<rparr>,
          \<lparr>level = ''H2'', entry_text = ''Section 1.1'', page = 1\<rparr>]"
    by simp
  have "list_all (\<lambda>(p, b). 0 \<le> font_size (outline_demo_store b)) outline_demo_input"
    using h by (simp add: list_all_iff)
  with f(1) a b ne show ?thesis by blast
qed

section \<open>The recognizer adapters\<close>

lemma strip_ab: "py_strip ''ab'' = ''ab''"
  by (simp add: py_strip_def py_isspace_def)

lemma degenerate_run:
  "run_tesseract (Inr degenerate_tess_data)
   = [\<lparr>box_x1 = 5, box_y1 = 5, box_x2 = 5, box_y2 = 15, box_text = ''ab'',
       confidence = 9 / 10, font_size = 8, area = 0\<rparr>]"
  by (simp add: run_tesseract_def degenerate_tess_data_def py_getitem_def py_int_def
      BoundingBox_init_def strip_ab)

lemma degenerate_easy:
  "run_easyocr True (Inr [([(5, 5), (5, 15), (5, 15), (5, 5)], ''ab'', 9 / 10)])
   = [\<lparr>box_x1 = 5, box_y1 = 5, box_x2 = 5, box_y2 = 15, box_text = ''ab'',
       confidence = 9 / 10, font_size = 8, area = 0\<rparr>]"
  by (simp add: run_easyocr_def py_min_def py_max_def BoundingBox_init_def strip_ab)

lemma tesseract_rows_origin:
  "tesseract_rows data idx boxes = Inr out \<Longrightarrow> \<forall>b \<in> set boxes. tess_origin data b
   \<Longrightarrow> \<forall>b \<in> set out. tess_origin data b"
proof (induction idx arbitrary: boxes)
  case Nil
  then show ?case by simp
next
  case (Cons i rest)
  show ?case
  proof (cases "\<exists>raw c. py_getitem (td_text data) i = Inr raw \<and> py_getitem (td_conf data) i = Inr c
                  \<and> length (py_strip raw) > 1 \<and> py_int c > 30")
    case False
    then have "tesseract_rows data rest boxes = Inr out"
      using Cons.prems(1) by (auto simp: Let_def split: sum.splits if_splits)
    from Cons.IH[OF this Cons.prems(2)] show ?thesis .
  next
    case True
    then obtain raw c where rc: "py_getitem (td_text data) i = Inr raw"
      "py_getitem (td_conf data) i = Inr c" "length (py_strip raw) > 1" "py_int c > 30"
      by blast
    from Cons.prems(1) rc obtain x y w h where g: "py_getitem (td_left data) i = Inr x"
      "py_getitem (td_top data) i = Inr y" "py_getitem (td_width data) i = Inr w"
      "py_getitem (td_height data) i = Inr h"
      by (auto simp: Let_def split: sum.splits)
    define nb where "nb = BoundingBox_init (of_int x) (of_int y) (of_int (x + w))
                              (of_int (y + h)) (py_strip raw) (of_int (py_int c) / 100)
                              (max 8 (of_int h * (8 / 10)))"
    have step: "tesseract_rows data rest (boxes @ [nb]) = Inr out"
      using Cons.prems(1) rc g by (simp add: Let_def nb_def)
    from g have "i < length (td_width data)" "w = td_width data ! i"
      "i < length (td_height data)" "h = td_height data ! i"
      by (auto simp: py_getitem_def split: if_splits)
    then have "tess_origin data nb"
      unfolding tess_origin_def nb_def
      by (intro exI[of _ i]) (simp add: BoundingBox_init_def)
    with Cons.prems(2) have "\<forall>b \<in> set (boxes @ [nb]). tess_origin data b" by simp
    from Cons.IH[OF step this] show ?thesis .
  qed
qed

lemma run_tesseract_origin:
  "b \<in> set (run_tesseract engine_output) \<Longrightarrow>
     \<exists>data. engine_output = Inr data \<and> tess_origin data b"
proof -
  assume b: "b \<in> set (run_tesseract engine_output)"
  then obtain data where d: "engine_output = Inr data"
    by (cases engine_output) (auto simp: run_tesseract_def)
  from b d obtain out where o: "tesseract_rows data [0..<length (td_text data)] [] = Inr out"
    and "b \<in> set out"
    by (cases "tesseract_rows data [0..<length (td_text data)] []")
      (auto simp: run_tesseract_def)
  with tesseract_rows_origin[OF o] d show ?thesis by auto
qed

lemma py_min_Min: "py_min xs = Inr m \<Longrightarrow> xs \<noteq> [] \<and> m = Min (set xs)"
  by (cases xs) (auto simp: py_min_def Min.set_eq_fold[symmetric])

lemma py_max_Max: "py_max xs = Inr m \<Longrightarrow> xs \<noteq> [] \<and> m = Max (set xs)"
  by (cases xs) (auto simp: py_max_def Max.set_eq_fold[symmetric])

lemma easyocr_rows_origin:
  "easyocr_rows rs boxes = Inr out \<Longrightarrow> set rs \<subseteq> set results
   \<Longrightarrow> \<forall>b \<in> set boxes. easy_origin results b
   \<Longrightarrow> \<forall>b \<in> set out. easy_origin results b"
proof (induction rs arbitrary: boxes)
  case Nil
  then show ?case by simp
next
  case (Cons r rest)
  obtain coords tx conf where r: "r = (coords, tx, conf)" by (cases r)
  from Cons.prems(2) have sub: "set rest \<subseteq> set results" and mem: "(coords, tx, conf) \<in> set results"
    by (auto simp: r)
  show ?case
  proof (cases "conf > 4 / 10 \<and> length (py_strip tx) > 1")
    case False
    then have "easyocr_rows rest boxes = Inr out"
      using Cons.prems(1) by (auto simp: r)
    from Cons.IH[OF this sub Cons.prems(3)] show ?thesis .
  next
    case True
    from Cons.prems(1) True obtain x1 y1 x2 y2 where g:
      "py_min (map fst coords) = Inr x1" "py_min (map snd coords) = Inr y1"
      "py_max (map fst coords) = Inr x2" "py_max (map snd coords) = Inr y2"
      by (auto simp: r Let_def split: sum.splits)
    define nb where "nb = BoundingBox_init x1 y1 x2 y2 tx conf (max 8 ((y2 - y1) * (8 / 10)))"
    have step: "easyocr_rows rest (boxes @ [nb]) = Inr out"
      using Cons.prems(1) True g by (simp add: r Let_def nb_def)
    from g have "coords \<noteq> []" "x1 = Min (fst ` set coords)" "x2 = Max (fst ` set coords)"
      "y1 = Min (snd ` set coords)" "y2 = Max (snd ` set coords)"
      using py_min_Min[of "map fst coords" x1] py_min_Min[of "map snd coords" y1]
        py_max_Max[of "map fst coords" x2] py_max_Max[of "map snd coords" y2]
      by auto
    then have "easy_origin results nb"
      unfolding easy_origin_def nb_def using mem
      by (intro exI[of _ coords] exI[of _ tx] exI[of _ conf]) (simp add: BoundingBox_init_def)
    with Cons.prems(3) have "\<forall>b \<in> set (boxes @ [nb]). easy_origin results b" by simp
    from Cons.IH[OF step sub this] show ?thesis .
  qed
qed

lemma run_easyocr_origin:
  "b \<in> set (run_easyocr reader_ready engine_output) \<Longrightarrow>
     \<exists>results. engine_output = Inr results \<and> easy_origin results b"
proof -
  assume b: "b \<in> set (run_easyocr reader_ready engine_output)"
  then have rr: reader_ready by (auto simp: run_easyocr_def split: if_splits)
  from b rr obtain results where d: "engine_output = Inr results"
    by (cases engine_output) (auto simp: run_easyocr_def)
  from b d rr obtain out where o: "easyocr_rows results [] = Inr out" and "b \<in> set out"
    by (cases "easyocr_rows results []") (auto simp: run_easyocr_def)
  with easyocr_rows_origin[OF o, of results] d show ?thesis by auto
qed

lemma positive_extent_area:
  fixes b :: BoundingBox
  assumes "area b = (box_x2 b - box_x1 b) * (box_y2 b - box_y1 b)"
    and "box_x1 b < box_x2 b" "box_y1 b < box_y2 b"
  shows "0 < area b"
  using assms by simp

text \<open>
  C9. The adapters admit a row by confidence and text length only and do not look at
  its geometry. Every box they produce caches the area of its rectangle;
  an EasyOCR box has \<open>x1 \<le> x2\<close> and \<open>y1 \<le> y2\<close>. When the engine reports only regions of
  strictly positive width and height (Tesseract), respectively polygons with two
  different x and two different y coordinates (EasyOCR), every produced box has
  \<open>x1 < x2\<close>, \<open>y1 < y2\<close> and strictly positive area. A Tesseract row of width 0 with
  admissible text and confidence yields a box with \<open>x2 = x1\<close> and area 0.
\<close>

theorem adapter_boxes_extent:
  "(\<forall>b \<in> set (run_tesseract (Inr data)).
       area b = (box_x2 b - box_x1 b) * (box_y2 b - box_y1 b)
       \<and> (list_all (\<lambda>w. 0 < w) (td_width data) \<and> list_all (\<lambda>h. 0 < h) (td_height data)
            \<longrightarrow> box_x1 b < box_x2 b \<and> box_y1 b < box_y2 b \<and> 0 < area b))
   \<and> (\<forall>b \<in> set (run_easyocr reader_ready (Inr results)).
       area b = (box_x2 b - box_x1 b) * (box_y2 b - box_y1 b)
       \<and> box_x1 b \<le> box_x2 b \<and> box_y1 b \<le> box_y2 b
       \<and> (list_all (\<lambda>(coords, t, c). (\<exists>p \<in> set coords. \<exists>q \<in> set coords. fst p < fst q)
                                     \<and> (\<exists>p \<in> set coords. \<exists>q \<in> set coords. snd p < snd q))
             results
            \<longrightarrow> box_x1 b < box_x2 b \<and> box_y1 b < box_y2 b \<and> 0 < area b))"
proof (intro conjI ballI)
  fix b assume "b \<in> set (run_tesseract (Inr data))"
  from run_tesseract_origin[OF this] have o: "tess_origin data b" by simp
  then show "area b = (box_x2 b - box_x1 b) * (box_y2 b - box_y1 b)"
    by (auto simp: tess_origin_def)
  show "list_all (\<lambda>w. 0 < w) (td_width data) \<and> list_all (\<lambda>h. 0 < h) (td_height data)
            \<longrightarrow> box_x1 b < box_x2 b \<and> box_y1 b < box_y2 b \<and> 0 < area b"
  proof
    assume pos: "list_all (\<lambda>w. 0 < w) (td_width data) \<and> list_all (\<lambda>h. 0 < h) (td_height data)"
    from o obtain i where i: "i < length (td_width data)" "i < length (td_height data)"
      "box_x2 b - box_x1 b = of_int (td_width data ! i)"
      "box_y2 b - box_y1 b = of_int (td_height data ! i)"
      "area b = (box_x2 b - box_x1 b) * (box_y2 b - box_y1 b)"
      by (auto simp: tess_origin_def)
    from pos i(1,2) have "0 < td_width data ! i" "0 < td_height data ! i"
      by (auto simp: list_all_length)
    with i(3,4) have "box_x1 b < box_x2 b" "box_y1 b < box_y2 b" by simp_all
    with positive_extent_area[OF i(5)] show "box_x1 b < box_x2 b \<and> box_y1 b < box_y2 b \<and> 0 < area b"
      by simp
  qed
next
  fix b assume "b \<in> set (run_easyocr reader_ready (Inr results))"
  from run_easyocr_origin[OF this] have "easy_origin results b" by simp
  then obtain coords tx conf where c: "(coords, tx, conf) \<in> set results" "coords \<noteq> []"
    "box_x1 b = Min (fst ` set coords)" "box_x2 b = Max (fst ` set coords)"
    "box_y1 b = Min (snd ` set coords)" "box_y2 b = Max (snd ` set coords)"
    and a: "area b = (box_x2 b - box_x1 b) * (box_y2 b - box_y1 b)"
    by (auto simp: easy_origin_def)
  show "area b = (box_x2 b - box_x1 b) * (box_y2 b - box_y1 b)" by (rule a)
  have fin: "finite (fst ` set coords)" "finite (snd ` set coords)"
    "fst ` set coords \<noteq> {}" "snd ` set coords \<noteq> {}"
    using c(2) by simp_all
  from c(2) obtain p0 where p0: "p0 \<in> set coords" by (cases coords) auto
  have "Min (fst ` set coords) \<le> fst p0" "fst p0 \<le> Max (fst ` set coords)"
    "Min (snd ` set coords) \<le> snd p0" "snd p0 \<le> Max (snd ` set coords)"
    using p0 fin by simp_all
  then show "box_x1 b \<le> box_x2 b" "box_y1 b \<le> box_y2 b" unfolding c by linarith+
  show "list_all (\<lambda>(coords, t, c). (\<exists>p \<in> set coords. \<exists>q \<in> set coords. fst p < fst q)
                                     \<and> (\<exists>p \<in> set coords. \<exists>q \<in> set coords. snd p < snd q))
             results
            \<longrightarrow> box_x1 b < box_x2 b \<and> box_y1 b < box_y2 b \<and> 0 < area b"
  proof
    assume "list_all (\<lambda>(coords, t, c). (\<exists>p \<in> set coords. \<exists>q \<in> set coords. fst p < fst q)
                                     \<and> (\<exists>p \<in> set coords. \<exists>q \<in> set coords. snd p < snd q))
             results"
    with c(1) obtain p q p' q' where pq: "p \<in> set coords" "q \<in> set coords" "fst p < fst q"
      "p' \<in> set coords" "q' \<in> set coords" "snd p' < snd q'"
      by (auto simp: list_all_iff)
    have "Min (fst ` set coords) \<le> fst p" "fst q \<le> Max (fst ` set coords)"
      "Min (snd ` set coords) \<le> snd p'" "snd q' \<le> Max (snd ` set coords)"
      using pq fin by simp_all
    with pq(3,6) have "box_x1 b < box_x2 b" "box_y1 b < box_y2 b"
      unfolding c by linarith+
    with positive_extent_area[OF a] show "box_x1 b < box_x2 b \<and> box_y1 b < box_y2 b \<and> 0 < area b"
      by simp
  qed
qed

theorem adapter_degenerate_counterexample:
  "run_tesseract (Inr degenerate_tess_data)
     = [\<lparr>box_x1 = 5, box_y1 = 5, box_x2 = 5, box_y2 = 15, box_text = ''ab'',
         confidence = 9 / 10, font_size = 8, area = 0\<rparr>]
   \<and> \<not> box_x1 (hd (run_tesseract (Inr degenerate_tess_data)))
        < box_x2 (hd (run_tesseract (Inr degenerate_tess_data)))
   \<and> \<not> 0 < area (hd (run_tesseract (Inr degenerate_tess_data)))"
  by (simp add: degenerate_run)

theorem adapter_boxes_extent_witness:
  "list_all (\<lambda>w. 0 < w) (td_width (degenerate_tess_data\<lparr>td_width := [20]\<rparr>))
   \<and> list_all (\<lambda>h. 0 < h) (td_height (degenerate_tess_data\<lparr>td_width := [20]\<rparr>))
   \<and> run_tesseract (Inr (degenerate_tess_data\<lparr>td_width := [20]\<rparr>))
       = [\<lparr>box_x1 = 5, box_y1 = 5, box_x2 = 25, box_y2 = 15, box_text = ''ab'',
           confidence = 9 / 10, font_size = 8, area = 200\<rparr>]
   \<and> 0 < area (hd (run_tesseract (Inr (degenerate_tess_data\<lparr>td_width := [20]\<rparr>))))
   \<and> run_easyocr True (Inr [([(5, 5), (25, 5), (25, 15), (5, 15)], ''ab'', 9 / 10)])
       = [\<lparr>box_x1 = 5, box_y1 = 5, box_x2 = 25, box_y2 = 15, box_text = ''ab'',
           confidence = 9 / 10, font_size = 8, area = 200\<rparr>]
   \<and> 0 < area (hd (run_easyocr True (Inr [([(5, 5), (25, 5), (25, 15), (5, 15)], ''ab'', 9 / 10)])))"
proof -
  let ?D = "degenerate_tess_data\<lparr>td_width := [20]\<rparr>"
  let ?R = "[([(5, 5), (25, 5), (25, 15), (5, 15)], ''ab'', 9 / 10)] :: ((rat \<times> rat) list \<times> string \<times> rat) list"
  have h: "list_all (\<lambda>w. 0 < w) (td_width ?D)" "list_all (\<lambda>h. 0 < h) (td_height ?D)"
    by (simp_all add: degenerate_tess_data_def)
  have r: "run_tesseract (Inr ?D)
       = [\<lparr>box_x1 = 5, box_y1 = 5, box_x2 = 25, box_y2 = 15, box_text = ''ab'',
           confidence = 9 / 10, font_size = 8, area = 200\<rparr>]"
    by (simp add: run_tesseract_def degenerate_tess_data_def py_getitem_def py_int_def
        BoundingBox_init_def strip_ab)
  have h2: "list_all (\<lambda>(coords, t, c). (\<exists>p \<in> set coords. \<exists>q \<in> set coords. fst p < fst q)
                                     \<and> (\<exists>p \<in> set coords. \<exists>q \<in> set coords. snd p < snd q)) ?R"
    by simp
  have r2: "run_easyocr True (Inr ?R)
       = [\<lparr>box_x1 = 5, box_y1 = 5, box_x2 = 25, box_y2 = 15, box_text = ''ab'',
           confidence = 9 / 10, font_size = 8, area = 200\<rparr>]"
    by (simp add: run_easyocr_def py_min_def py_max_def BoundingBox_init_def strip_ab)
  from adapter_boxes_extent[of ?D True ?R] h h2
  have "\<forall>b \<in> set (run_tesseract (Inr ?D)). 0 < area b"
    "\<forall>b \<in> set (run_easyocr True (Inr ?R)). 0 < area b"
    by blast+
  then have "0 < area (hd (run_tesseract (Inr ?D)))" "0 < area (hd (run_easyocr True (Inr ?R)))"
    by (simp_all add: r r2)
  with h r r2 show ?thesis by blast
qed

text \<open>Both adapters floor the estimated font size at 8.\<close>

lemma adapter_font_size_ge_8:
  "b \<in> set (run_tesseract engine_output) \<Longrightarrow> 8 \<le> font_size b"
  "b' \<in> set (run_easyocr reader_ready engine_output') \<Longrightarrow> 8 \<le> font_size b'"
  using run_tesseract_origin[of b engine_output] run_easyocr_origin[of b' reader_ready engine_output']
  by (auto simp: tess_origin_def easy_origin_def)

section \<open>The dispatcher\<close>

lemma map_of_py_setitem: "map_of (py_setitem d k v) = (map_of d)(k \<mapsto> v)"
  by (induction d k v rule: py_setitem.induct) (auto simp: fun_eq_iff)

lemma page_result_view_store:
  "page_result_view (store_result results p n boxes)
   = (page_result_view results)
       (p \<mapsto> (case page_result_view results p of None \<Rightarrow> Map.empty | Some m \<Rightarrow> m)(n \<mapsto> boxes))"
  by (auto simp: page_result_view_def store_result_def inner_dict_def map_of_py_setitem fun_eq_iff
      split: option.splits)

lemma collect_results_view:
  "collect_results job_result ks results = Inr results' \<Longrightarrow>
   page_result_view results' = routed job_result (set ks) (page_result_view results)"
proof (induction ks arbitrary: results)
  case Nil
  then show ?case by (auto simp: routed_def fun_eq_iff)
next
  case (Cons k ks)
  obtain p n where k: "k = (p, n)" by (cases k)
  from Cons.prems obtain boxes where b: "job_result (p, n) = Inr boxes"
    and r: "collect_results job_result ks (store_result results p n boxes) = Inr results'"
    by (auto simp: k split: sum.splits)
  have "page_result_view results'
        = routed job_result (set ks) (page_result_view (store_result results p n boxes))"
    by (rule Cons.IH[OF r])
  also have "\<dots> = routed job_result (set (k # ks)) (page_result_view results)"
    unfolding page_result_view_store k
    by (auto simp: routed_def fun_eq_iff b image_iff split: option.splits)
  finally show ?case .
qed

lemma collect_results_fails_iff:
  "(\<exists>e. collect_results job_result ks results = Inl e) \<longleftrightarrow> (\<exists>k \<in> set ks. \<exists>e. job_result k = Inl e)"
proof (induction ks arbitrary: results)
  case Nil
  then show ?case by simp
next
  case (Cons k ks)
  obtain p n where k: "k = (p, n)" by (cases k)
  show ?case
  proof (cases "job_result (p, n)")
    case (Inl e)
    then show ?thesis by (auto simp: k)
  next
    case (Inr boxes)
    then show ?thesis using Cons.IH[of "store_result results p n boxes"] by (auto simp: k)
  qed
qed

lemma collect_results_same_set:
  assumes "set ks1 = set ks2"
  shows "((\<exists>e. collect_results job_result ks1 results = Inl e)
          \<longleftrightarrow> (\<exists>e. collect_results job_result ks2 results = Inl e))
       \<and> (\<forall>r1 r2. collect_results job_result ks1 results = Inr r1
                   \<and> collect_results job_result ks2 results = Inr r2
                  \<longrightarrow> page_result_view r1 = page_result_view r2)"
  using assms collect_results_view[of job_result ks1 results]
    collect_results_view[of job_result ks2 results]
  by (auto simp: collect_results_fails_iff)

text \<open>
  C2. The results are routed by the tag of each job. Whenever the completions are the
  submitted jobs in some order, and in particular in the reverse of the submission
  order, collecting them fails exactly when collecting in submission order fails, and
  otherwise yields the same mapping from page index to per-engine detection lists.
\<close>

theorem dispatcher_order_independent:
  "(set completion = set (submitted_keys page_bytes_list) \<longrightarrow>
      ((\<exists>e. collect_results job_result completion [] = Inl e)
         \<longleftrightarrow> (\<exists>e. collect_results job_result (submitted_keys page_bytes_list) [] = Inl e))
      \<and> (\<forall>r1 r2. collect_results job_result completion [] = Inr r1
                  \<and> collect_results job_result (submitted_keys page_bytes_list) [] = Inr r2
                 \<longrightarrow> page_result_view r1 = page_result_view r2))
   \<and> ((\<exists>e. collect_results job_result (rev (submitted_keys page_bytes_list)) [] = Inl e)
         \<longleftrightarrow> (\<exists>e. collect_results job_result (submitted_keys page_bytes_list) [] = Inl e))
   \<and> (\<forall>r1 r2. collect_results job_result (rev (submitted_keys page_bytes_list)) [] = Inr r1
               \<and> collect_results job_result (submitted_keys page_bytes_list) [] = Inr r2
              \<longrightarrow> page_result_view r1 = page_result_view r2)"
  using collect_results_same_set[of completion "submitted_keys page_bytes_list" job_result "[]"]
    collect_results_same_set[of "rev (submitted_keys page_bytes_list)"
      "submitted_keys page_bytes_list" job_result "[]"]
  by simp

lemma demo_submitted:
  "submitted_keys [0 :: nat, 0]
   = [(0, ''tesseract''), (0, ''easyocr''), (1, ''tesseract''), (1, ''easyocr'')]"
  by (simp add: submitted_keys_def)

lemma demo_collect_forward:
  "collect_results demo_job_result
     [(0, ''tesseract''), (0, ''easyocr''), (1, ''tesseract''), (1, ''easyocr'')] []
   = Inr [(0, [(''tesseract'', [0]), (''easyocr'', [1])]),
          (1, [(''tesseract'', [2]), (''easyocr'', [3])])]"
  by (simp add: demo_job_result_def store_result_def inner_dict_def)

lemma demo_collect_reverse:
  "collect_results demo_job_result
     [(1, ''easyocr''), (1, ''tesseract''), (0, ''easyocr''), (0, ''tesseract'')] []
   = Inr [(1, [(''easyocr'', [3]), (''tesseract'', [2])]),
          (0, [(''easyocr'', [1]), (''tesseract'', [0])])]"
  by (simp add: demo_job_result_def store_result_def inner_dict_def)

theorem dispatcher_order_independent_witness:
  "set (rev (submitted_keys [0 :: nat, 0])) = set (submitted_keys [0 :: nat, 0])
   \<and> collect_results demo_job_result (submitted_keys [0 :: nat, 0]) []
       = Inr [(0, [(''tesseract'', [0]), (''easyocr'', [1])]),
              (1, [(''tesseract'', [2]), (''easyocr'', [3])])]
   \<and> collect_results demo_job_result (rev (submitted_keys [0 :: nat, 0])) []
       = Inr [(1, [(''easyocr'', [3]), (''tesseract'', [2])]),
              (0, [(''easyocr'', [1]), (''tesseract'', [0])])]
   \<and> page_result_view [(1, [(''easyocr'', [3]), (''tesseract'', [2])]),
                        (0, [(''easyocr'', [1]), (''tesseract'', [0])])]
       = page_result_view [(0, [(''tesseract'', [0]), (''easyocr'', [1])]),
                           (1, [(''tesseract'', [2]), (''easyocr'', [3])])]"
proof -
  have s: "set (rev (submitted_keys [0 :: nat, 0])) = set (submitted_keys [0 :: nat, 0])"
    by simp
  have f: "collect_results demo_job_result (submitted_keys [0 :: nat, 0]) []
       = Inr [(0, [(''tesseract'', [0]), (''easyocr'', [1])]),
              (1, [(''tesseract'', [2]), (''easyocr'', [3])])]"
    by (simp only: demo_submitted demo_collect_forward)
  have r: "collect_results demo_job_result (rev (submitted_keys [0 :: nat, 0])) []
       = Inr [(1, [(''easyocr'', [3]), (''tesseract'', [2])]),
              (0, [(''easyocr'', [1]), (''tesseract'', [0])])]"
    by (simp only: demo_submitted rev.simps append.simps demo_collect_reverse)
  from dispatcher_order_independent[of "rev (submitted_keys [0 :: nat, 0])" "[0 :: nat, 0]"
      demo_job_result] s f r
  have "page_result_view [(1, [(''easyocr'', [3]), (''tesseract'', [2])]),
                        (0, [(''easyocr'', [1]), (''tesseract'', [0])])]
       = page_result_view [(0, [(''tesseract'', [0]), (''easyocr'', [1])]),
                           (1, [(''tesseract'', [2]), (''easyocr'', [3])])]"
    by blast
  with s f r show ?thesis by blast
qed

section \<open>Document processing\<close>

text \<open>
  C8. When the renderer fails or yields no pages, \<open>process_single_pdf_fast\<close> writes no
  output and logs an error, but it returns normally, as it does after a success (shown
  here for a one-page document without detections), and the process ends with status 0.
  A failing job in the same function ends the process with status 1.
\<close>

theorem no_pages_returns_normally:
  "process_single_pdf_fast st (Inl e) job_result completion_order write_ok
     = \<lparr>outcome = Returned, written = None, logged = [INFO, ERROR, ERROR]\<rparr>
   \<and> process_single_pdf_fast st (Inr []) job_result completion_order write_ok
     = \<lparr>outcome = Returned, written = None, logged = [INFO, ERROR]\<rparr>
   \<and> main_exit_status st
       [\<lparr>doc_opened = Inl e, doc_job_result = job_result,
         doc_completion_order = completion_order, doc_write_ok = write_ok\<rparr>] = 0
   \<and> process_single_pdf_fast st (Inr [img]) (\<lambda>k. Inr []) (\<lambda>ks. ks) True
     = \<lparr>outcome = Returned, written = Some \<lparr>title = [], outline = []\<rparr>,
        logged = [INFO, INFO, INFO, INFO]\<rparr>
   \<and> outcome (process_single_pdf_fast st (Inr [img]) (\<lambda>k. Inl RuntimeError) (\<lambda>ks. ks) write_ok)
     = SystemExit 1
   \<and> main_exit_status st
       [\<lparr>doc_opened = Inr [img], doc_job_result = (\<lambda>k. Inl RuntimeError),
         doc_completion_order = (\<lambda>ks. ks), doc_write_ok = write_ok\<rparr>] = 1"
  by (simp add: process_single_pdf_fast_def extract_pdf_pages_fast_def main_exit_status_def
      submitted_keys_def store_result_def inner_dict_def fast_ensemble_voting_def
      create_document_outline_def)

end
